theory Spec2Isabelle
  imports Main
begin

section \<open>Data model\<close>

text \<open>
  The engine is the class \<open>DynamicDirectivesDirective\<close> of
  \<^verbatim>\<open>dynamic-directives.directive.ts\<close>. Its private fields become one record
  that every method takes and returns; what the methods do to their collaborators
  (the instances they construct, the hooks they call, the Binding Ports, the event
  emitter) is appended to a trace that is part of the same record.

  JavaScript distinguishes \<open>undefined\<close> from \<open>null\<close> under \<open>!==\<close>, and the getter
  \<open>isCompChanged\<close> compares with \<open>!==\<close>, so both values are kept.
\<close>

datatype 'a nullable = Undefined | Null | Val 'a

type_synonym Token = string
type_synonym InputsType = "(string \<times> string) list"
type_synonym OutputsType = "(string \<times> string) list"

text \<open>One entry of what \<open>ctorParameters()\<close> returns: an object with a \<open>type\<close>.\<close>

record NgParam =
  param_type :: Token

text \<open>
  \<open>Type<T>\<close>, a directive class. Two classes are the same key of a \<open>Map\<close> when they
  are the same class; here a class is its description. \<open>methods\<close> lists the
  lifecycle methods the prototype has, each with a flag that says whether calling
  it throws; \<open>ctorThrows\<close> says whether the constructor body throws.
\<close>

record DirType =
  type_name :: string
  ctorParameters :: "NgParam list option"
  ctorThrows :: bool
  methods :: "(string \<times> bool) list"

text \<open>An instance of a directive class: the object \<open>directiveInjector.get\<close> returns.\<close>

record Instance =
  inst_id :: nat
  inst_class :: DirType

record DynamicDirectiveDef =
  def_type :: DirType
  def_inputs :: "InputsType option"
  def_outputs :: "OutputsType option"

definition dynamicDirectiveDef ::
  "DirType \<Rightarrow> InputsType option \<Rightarrow> OutputsType option \<Rightarrow> DynamicDirectiveDef" where
  "dynamicDirectiveDef type inputs outputs =
     \<lparr>def_type = type, def_inputs = inputs, def_outputs = outputs\<rparr>"

text \<open>
  \<open>ComponentRef\<close>, the host anchor, with the fields the engine reads. The instance
  is a parameter: the host's is an opaque identity, the adapter built by
  \<open>dirToCompDef\<close> carries a directive instance. The injector is the list of tokens
  the host's scope resolves. The closure \<open>setInput\<close> of the adapter is only ever
  called inside the Binding Port and has no field here.
\<close>

record 'i ComponentRef =
  cr_instance :: 'i
  cr_injector :: "Token list"
  cr_hostView :: nat
  cr_location :: nat
  cr_changeDetectorRef :: nat
  cr_onDestroy :: nat
  cr_destroy :: nat
  cr_componentType :: string

type_synonym HostRef = "nat ComponentRef"

record DirectiveRef =
  dr_instance :: Instance
  dr_type :: DirType
  dr_injector :: "Token list"
  dr_hostComponent :: nat
  dr_hostView :: nat
  dr_location :: nat
  dr_changeDetectorRef :: nat
  dr_onDestroy :: nat

text \<open>
  Modelled from the spec: the Binding Port (\<open>IoService\<close>, created by
  \<open>IoFactoryService\<close>; both live in \<^verbatim>\<open>../io\<close>, which is not among the sources).
  The spec treats it as a black box with \<open>create\<close>, \<open>update(inputs, outputs)\<close> and
  a teardown. A port is a handle; its three operations are recorded in the trace
  and never throw.
\<close>

record IoService =
  io_id :: nat
  io_componentRef :: "Instance ComponentRef"
  io_trackOutputChanges :: bool

text \<open>
  What the engine does to its collaborators, in the order it does it: an instance
  obtained from the injector, a port created for an instance, a port updated with
  inputs and outputs, a port torn down, a method of an instance called, and the list
  handed to \<open>ndcDynamicDirectivesCreated.emit\<close>. Emitting is recorded and returns.
\<close>

datatype event =
    EvConstruct DirType nat
  | EvIoCreate nat nat
  | EvIoUpdate nat "InputsType option" "OutputsType option"
  | EvIoDestroy nat
  | EvHook nat string
  | EvEmit "DirectiveRef list"

text \<open>
  The engine has no \<open>throw\<close> and no \<open>try\<close> of its own. What can throw is what it
  calls: the injector, when a dependency does not resolve or the constructor
  throws, and the methods of the instances.
\<close>

datatype error =
    ResolutionError Token
  | ConstructorError string
  | HookError string

text \<open>
  The fields of the directive, then the world it acts on. \<open>dirRef\<close> and \<open>dirIo\<close> are
  JavaScript \<open>Map\<close>s: association lists in insertion order. \<open>dirsDiffer\<close> is the
  memo of the differ, the list it saw last. \<open>reflectService\<close> stands for
  \<open>ReflectService.getCtorParamTypes\<close> (in \<^verbatim>\<open>../reflect\<close>, not among the sources).
\<close>

record Engine =
  lastCompInstance :: "nat nullable"
  dirRef :: "(DirType \<times> DirectiveRef) list"
  dirIo :: "(DirType \<times> IoService) list"
  dirsDiffer :: "DynamicDirectiveDef list"
  reflectService :: "DirType \<Rightarrow> Token list option"
  trace :: "event list"
  nextInst :: nat
  nextIo :: nat

text \<open>What the directive reads afresh on every tick: its two inputs and the injected
  \<open>componentInjector\<close> (\<open>None\<close> when the optional dependency is not provided), whose
  \<open>componentRef\<close> is a host or \<open>null\<close>.\<close>

record Inputs =
  ndcDynamicDirectives :: "DynamicDirectiveDef list option"
  ngComponentOutletNdcDynamicDirectives :: "DynamicDirectiveDef list option"
  componentInjector :: "HostRef nullable option"

definition newEngine :: "(DirType \<Rightarrow> Token list option) \<Rightarrow> Engine" where
  "newEngine reflect =
     \<lparr>lastCompInstance = Undefined, dirRef = [], dirIo = [], dirsDiffer = [],
      reflectService = reflect, trace = [], nextInst = 0, nextIo = 0\<rparr>"

section \<open>JavaScript Map\<close>

text \<open>\<open>Map.prototype.set\<close> keeps the position of a key that is present and appends a
  new one; \<open>forEach\<close> visits the entries in that order.\<close>

fun Map_set :: "'k \<Rightarrow> 'v \<Rightarrow> ('k \<times> 'v) list \<Rightarrow> ('k \<times> 'v) list" where
  "Map_set k v [] = [(k, v)]"
| "Map_set k v ((k', v') # m) = (if k' = k then (k, v) # m else (k', v') # Map_set k v m)"

fun Map_delete :: "'k \<Rightarrow> ('k \<times> 'v) list \<Rightarrow> ('k \<times> 'v) list" where
  "Map_delete k [] = []"
| "Map_delete k ((k', v') # m) = (if k' = k then Map_delete k m else (k', v') # Map_delete k m)"

definition Map_get :: "('k \<times> 'v) list \<Rightarrow> 'k \<Rightarrow> 'v option" where
  "Map_get m k = map_of m k"

definition Map_has :: "('k \<times> 'v) list \<Rightarrow> 'k \<Rightarrow> bool" where
  "Map_has m k = (map_of m k \<noteq> None)"

definition Map_keys :: "('k \<times> 'v) list \<Rightarrow> 'k list" where
  "Map_keys m = map fst m"

section \<open>Results and sequencing\<close>

text \<open>A method either returns or throws, and in both cases the state it has reached
  stays: the pair of the outcome and the state.\<close>

type_synonym 'a result = "(error + 'a) \<times> Engine"

definition returnE :: "'a \<Rightarrow> Engine \<Rightarrow> 'a result" where
  "returnE x s = (Inr x, s)"

definition bindE :: "(Engine \<Rightarrow> 'a result) \<Rightarrow> ('a \<Rightarrow> Engine \<Rightarrow> 'b result) \<Rightarrow> Engine \<Rightarrow> 'b result" where
  "bindE m f s = (case m s of (Inl e, s') \<Rightarrow> (Inl e, s') | (Inr x, s') \<Rightarrow> f x s')"

fun forEachE :: "('a \<Rightarrow> Engine \<Rightarrow> unit result) \<Rightarrow> 'a list \<Rightarrow> Engine \<Rightarrow> unit result" where
  "forEachE f [] s = (Inr (), s)"
| "forEachE f (x # xs) s =
     (case f x s of (Inl e, s') \<Rightarrow> (Inl e, s') | (Inr u, s') \<Rightarrow> forEachE f xs s')"

definition record_event :: "event \<Rightarrow> Engine \<Rightarrow> Engine" where
  "record_event e s = s\<lparr>trace := trace s @ [e]\<rparr>"

section \<open>util.ts\<close>

definition extractNgParamTypes :: "DirType \<Rightarrow> Token list option" where
  "extractNgParamTypes type = map_option (map param_type) (ctorParameters type)"

definition isOnDestroy :: "Instance \<Rightarrow> bool" where
  "isOnDestroy obj = (map_of (methods (inst_class obj)) ''ngOnDestroy'' \<noteq> None)"

section \<open>The getters\<close>

definition directives :: "Inputs \<Rightarrow> DynamicDirectiveDef list option" where
  "directives inp =
     (case ndcDynamicDirectives inp of
        Some ds \<Rightarrow> Some ds
      | None \<Rightarrow> ngComponentOutletNdcDynamicDirectives inp)"

definition componentRef :: "Inputs \<Rightarrow> HostRef nullable" where
  "componentRef inp = (case componentInjector inp of None \<Rightarrow> Undefined | Some c \<Rightarrow> c)"

definition compInstance :: "Inputs \<Rightarrow> nat nullable" where
  "compInstance inp =
     (case componentRef inp of
        Undefined \<Rightarrow> Undefined
      | Null \<Rightarrow> Null
      | Val c \<Rightarrow> Val (cr_instance c))"

definition isCompChanged :: "Inputs \<Rightarrow> Engine \<Rightarrow> bool \<times> Engine" where
  "isCompChanged inp s =
     (if lastCompInstance s \<noteq> compInstance inp
      then (True, s\<lparr>lastCompInstance := compInstance inp\<rparr>)
      else (False, s))"

definition hostInjector :: "HostRef \<Rightarrow> Token list" where
  "hostInjector c = cr_injector c"

section \<open>The differ\<close>

text \<open>
  Modelled from the spec: the List Differ (the framework's \<open>IterableDiffers\<close>, not
  among the sources). The spec: a stateful component that, given the previous and
  the current declared list, with the behavior type as identity, computes the
  added and the removed entries; it holds the list it saw last; when it reports no
  structural change (no adds, no removes) the engine takes the refresh path. An
  entry of the current list is matched with one entry of the previous list of the
  same type that is not matched yet: what is left of the current list is added,
  what is left of the previous list is removed. An absent list is diffed as the
  empty one.
\<close>

record IterableChanges =
  removedItems :: "DynamicDirectiveDef list"
  addedItems :: "DynamicDirectiveDef list"

fun remove1_type :: "DirType \<Rightarrow> DynamicDirectiveDef list \<Rightarrow> DynamicDirectiveDef list" where
  "remove1_type t [] = []"
| "remove1_type t (d # ds) = (if def_type d = t then ds else d # remove1_type t ds)"

fun diff_added :: "DynamicDirectiveDef list \<Rightarrow> DynamicDirectiveDef list \<Rightarrow> DynamicDirectiveDef list" where
  "diff_added memo [] = []"
| "diff_added memo (d # ds) =
     (if def_type d \<in> set (map def_type memo)
      then diff_added (remove1_type (def_type d) memo) ds
      else d # diff_added memo ds)"

fun diff_removed :: "DynamicDirectiveDef list \<Rightarrow> DynamicDirectiveDef list \<Rightarrow> DynamicDirectiveDef list" where
  "diff_removed memo [] = memo"
| "diff_removed memo (d # ds) = diff_removed (remove1_type (def_type d) memo) ds"

definition differ_diff ::
  "DynamicDirectiveDef list option \<Rightarrow> Engine \<Rightarrow> IterableChanges option \<times> Engine" where
  "differ_diff collection s =
     (let cur = (case collection of None \<Rightarrow> [] | Some c \<Rightarrow> c);
          rem = diff_removed (dirsDiffer s) cur;
          add = diff_added (dirsDiffer s) cur;
          s' = s\<lparr>dirsDiffer := cur\<rparr>
      in if rem = [] \<and> add = [] then (None, s')
         else (Some \<lparr>removedItems = rem, addedItems = add\<rparr>, s'))"

section \<open>Construction\<close>

definition resolveDirParamTypes :: "Engine \<Rightarrow> DirType \<Rightarrow> Token list" where
  "resolveDirParamTypes s dirType =
     (case extractNgParamTypes dirType of
        Some ps \<Rightarrow> ps
      | None \<Rightarrow> (case reflectService s dirType of Some ps \<Rightarrow> ps | None \<Rightarrow> []))"

text \<open>
  Modelled from the spec: the dependency-injection container (the framework's
  \<open>Injector\<close>). The spec: \<open>resolve(type, parentScope, overrides)\<close> gives an instance
  and fails with a resolution error if a dependency cannot be satisfied. The child
  scope of \<open>createDirective\<close> satisfies \<open>ElementRef\<close> by its override and every
  token the host's scope resolves.
\<close>

definition resolves :: "HostRef \<Rightarrow> Token \<Rightarrow> bool" where
  "resolves c dep = (dep = ''ElementRef'' \<or> dep \<in> set (hostInjector c))"

definition createDirective :: "HostRef \<Rightarrow> DirType \<Rightarrow> Engine \<Rightarrow> Instance result" where
  "createDirective c dirType s =
     (case filter (\<lambda>dep. \<not> resolves c dep) (resolveDirParamTypes s dirType) of
        dep # rest \<Rightarrow> (Inl (ResolutionError dep), s)
      | [] \<Rightarrow>
          if ctorThrows dirType then (Inl (ConstructorError (type_name dirType)), s)
          else (Inr \<lparr>inst_id = nextInst s, inst_class = dirType\<rparr>,
                record_event (EvConstruct dirType (nextInst s)) (s\<lparr>nextInst := Suc (nextInst s)\<rparr>)))"

text \<open>Calling a method that the object has: the call is recorded, then it returns
  or throws.\<close>

definition invoke :: "Instance \<Rightarrow> string \<Rightarrow> Engine \<Rightarrow> unit result" where
  "invoke obj hook s =
     (let s' = record_event (EvHook (inst_id obj) hook) s
      in if map_of (methods (inst_class obj)) hook = Some True
         then (Inl (HookError hook), s') else (Inr (), s'))"

definition callHook :: "Instance \<Rightarrow> string \<Rightarrow> Engine \<Rightarrow> unit result" where
  "callHook obj hook s =
     (if map_of (methods (inst_class obj)) hook \<noteq> None then invoke obj hook s else (Inr (), s))"

definition callInitHooks :: "Instance \<Rightarrow> Engine \<Rightarrow> unit result" where
  "callInitHooks obj =
     bindE (callHook obj ''ngOnInit'') (\<lambda>_.
     bindE (callHook obj ''ngDoCheck'') (\<lambda>_.
     bindE (callHook obj ''ngAfterContentInit'') (\<lambda>_.
     bindE (callHook obj ''ngAfterContentChecked'') (\<lambda>_.
     bindE (callHook obj ''ngAfterViewInit'') (\<lambda>_.
     callHook obj ''ngAfterViewChecked'')))))"

definition dirToCompDef :: "HostRef \<Rightarrow> DirectiveRef \<Rightarrow> Instance ComponentRef" where
  "dirToCompDef c r =
     \<lparr>cr_instance = dr_instance r,
      cr_injector = cr_injector c,
      cr_hostView = cr_hostView c,
      cr_location = cr_location c,
      cr_changeDetectorRef = cr_changeDetectorRef c,
      cr_onDestroy = cr_onDestroy c,
      cr_destroy = cr_destroy c,
      cr_componentType = type_name (dr_type r)\<rparr>"

definition initDirIO :: "HostRef \<Rightarrow> DirectiveRef \<Rightarrow> DynamicDirectiveDef \<Rightarrow> Engine \<Rightarrow> Engine" where
  "initDirIO c r dirDef s =
     (let io = \<lparr>io_id = nextIo s, io_componentRef = dirToCompDef c r, io_trackOutputChanges = True\<rparr>;
          s1 = record_event (EvIoCreate (io_id io) (inst_id (dr_instance r))) (s\<lparr>nextIo := Suc (nextIo s)\<rparr>);
          s2 = record_event (EvIoUpdate (io_id io) (def_inputs dirDef) (def_outputs dirDef)) s1
      in s2\<lparr>dirIo := Map_set (dr_type r) io (dirIo s2)\<rparr>)"

definition initDirective :: "HostRef \<Rightarrow> DynamicDirectiveDef \<Rightarrow> Engine \<Rightarrow> DirectiveRef option result" where
  "initDirective c dirDef s =
     (if Map_has (dirRef s) (def_type dirDef) then (Inr None, s)
      else
        (case createDirective c (def_type dirDef) s of
           (Inl e, s1) \<Rightarrow> (Inl e, s1)
         | (Inr inst, s1) \<Rightarrow>
             (let directiveRef =
                    \<lparr>dr_instance = inst,
                     dr_type = def_type dirDef,
                     dr_injector = hostInjector c,
                     dr_hostComponent = cr_instance c,
                     dr_hostView = cr_hostView c,
                     dr_location = cr_location c,
                     dr_changeDetectorRef = cr_changeDetectorRef c,
                     dr_onDestroy = cr_onDestroy c\<rparr>;
                  s2 = initDirIO c directiveRef dirDef s1
              in case callInitHooks inst s2 of
                   (Inl e, s3) \<Rightarrow> (Inl e, s3)
                 | (Inr u, s3) \<Rightarrow>
                     (Inr (Some directiveRef),
                      s3\<lparr>dirRef := Map_set (dr_type directiveRef) directiveRef (dirRef s3)\<rparr>))))"

section \<open>Destruction\<close>

definition destroyDirRef :: "DirectiveRef \<Rightarrow> Engine \<Rightarrow> unit result" where
  "destroyDirRef r s =
     (let s1 = (case Map_get (dirIo s) (dr_type r) of
                  None \<Rightarrow> s
                | Some io \<Rightarrow> record_event (EvIoDestroy (io_id io)) s)
      in if isOnDestroy (dr_instance r) then invoke (dr_instance r) ''ngOnDestroy'' s1
         else (Inr (), s1))"

definition destroyAllDirectives :: "Engine \<Rightarrow> unit result" where
  "destroyAllDirectives s =
     bindE (forEachE destroyDirRef (map snd (dirRef s)))
       (\<lambda>_ s'. (Inr (), s'\<lparr>dirRef := [], dirIo := []\<rparr>)) s"

definition destroyDirective :: "DynamicDirectiveDef \<Rightarrow> Engine \<Rightarrow> unit result" where
  "destroyDirective dirDef s =
     bindE (case Map_get (dirRef s) (def_type dirDef) of
              Some r \<Rightarrow> destroyDirRef r
            | None \<Rightarrow> returnE ())
       (\<lambda>_ s'. (Inr (), s'\<lparr>dirRef := Map_delete (def_type dirDef) (dirRef s'),
                           dirIo := Map_delete (def_type dirDef) (dirIo s')\<rparr>)) s"

section \<open>The update cycle\<close>

definition updateDirective :: "DynamicDirectiveDef \<Rightarrow> Engine \<Rightarrow> Engine" where
  "updateDirective dirDef s =
     (case Map_get (dirIo s) (def_type dirDef) of
        None \<Rightarrow> s
      | Some io \<Rightarrow> record_event (EvIoUpdate (io_id io) (def_inputs dirDef) (def_outputs dirDef)) s)"

definition updateDirectives :: "Inputs \<Rightarrow> Engine \<Rightarrow> Engine" where
  "updateDirectives inp s =
     (case directives inp of None \<Rightarrow> s | Some ds \<Rightarrow> fold updateDirective ds s)"

text \<open>The callback of \<open>forEachAddedItem\<close>, run over the added entries, with the
  local \<open>createdDirs\<close> as accumulator.\<close>

fun forEachAddedItem ::
  "HostRef \<Rightarrow> DynamicDirectiveDef list \<Rightarrow> DirectiveRef list \<Rightarrow> Engine \<Rightarrow> DirectiveRef list result" where
  "forEachAddedItem c [] createdDirs s = (Inr createdDirs, s)"
| "forEachAddedItem c (item # items) createdDirs s =
     (case initDirective c item s of
        (Inl e, s') \<Rightarrow> (Inl e, s')
      | (Inr None, s') \<Rightarrow> forEachAddedItem c items createdDirs s'
      | (Inr (Some r), s') \<Rightarrow> forEachAddedItem c items (createdDirs @ [r]) s')"

definition processDirChanges :: "HostRef \<Rightarrow> IterableChanges \<Rightarrow> Engine \<Rightarrow> unit result" where
  "processDirChanges c changes =
     bindE (forEachE destroyDirective (removedItems changes)) (\<lambda>_.
     bindE (forEachAddedItem c (addedItems changes) []) (\<lambda>createdDirs s.
       (Inr (), if createdDirs \<noteq> [] then record_event (EvEmit createdDirs) s else s)))"

definition maybeDestroyDirectives :: "Inputs \<Rightarrow> Engine \<Rightarrow> bool result" where
  "maybeDestroyDirectives inp s =
     (case isCompChanged inp s of
        (changed, s1) \<Rightarrow>
          bindE (if changed \<or> componentRef inp = Undefined \<or> componentRef inp = Null
                 then (\<lambda>s. destroyAllDirectives (snd (differ_diff (Some []) s)))
                 else returnE ())
            (\<lambda>_ s'. (Inr (componentRef inp = Undefined \<or> componentRef inp = Null), s')) s1)"

definition ngDoCheck :: "Inputs \<Rightarrow> Engine \<Rightarrow> unit result" where
  "ngDoCheck inp s =
     (case maybeDestroyDirectives inp s of
        (Inl e, s1) \<Rightarrow> (Inl e, s1)
      | (Inr True, s1) \<Rightarrow> (Inr (), s1)
      | (Inr False, s1) \<Rightarrow>
          (case componentRef inp of
             Val c \<Rightarrow>
               (case differ_diff (directives inp) s1 of
                  (None, s2) \<Rightarrow> (Inr (), updateDirectives inp s2)
                | (Some dirsChanges, s2) \<Rightarrow> processDirChanges c dirsChanges s2)
           | _ \<Rightarrow> (Inr (), s1)))"

definition ngOnDestroy :: "Engine \<Rightarrow> unit result" where
  "ngOnDestroy s = destroyAllDirectives s"

section \<open>Notions used to state the properties\<close>

text \<open>The six hooks of the specification, in its order: initialize, check,
  after-content-init, after-content-check, after-view-init, after-view-check.\<close>

definition init_hook_order :: "string list" where
  "init_hook_order =
     [''ngOnInit'', ''ngDoCheck'', ''ngAfterContentInit'', ''ngAfterContentChecked'',
      ''ngAfterViewInit'', ''ngAfterViewChecked'']"

definition exposes :: "Instance \<Rightarrow> string \<Rightarrow> bool" where
  "exposes obj h = (map_of (methods (inst_class obj)) h \<noteq> None)"

definition hook_throws :: "Instance \<Rightarrow> string \<Rightarrow> bool" where
  "hook_throws obj h = (map_of (methods (inst_class obj)) h = Some True)"

definition add_events :: "event list \<Rightarrow> Engine \<Rightarrow> Engine" where
  "add_events es s = s\<lparr>trace := trace s @ es\<rparr>"

text \<open>What tearing one record down adds to the trace: the teardown of its port, if the
  port map has one under the record's type, then the record's own teardown hook,
  if its instance has one.\<close>

definition teardown_events :: "(DirType \<times> IoService) list \<Rightarrow> DirectiveRef \<Rightarrow> event list" where
  "teardown_events ports r =
     (case map_of ports (dr_type r) of None \<Rightarrow> [] | Some io \<Rightarrow> [EvIoDestroy (io_id io)]) @
     (if exposes (dr_instance r) ''ngOnDestroy''
      then [EvHook (inst_id (dr_instance r)) ''ngOnDestroy''] else [])"

text \<open>The instance's teardown hook returns.\<close>

definition teardown_ok :: "DirectiveRef \<Rightarrow> bool" where
  "teardown_ok r = (\<not> hook_throws (dr_instance r) ''ngOnDestroy'')"

text \<open>No host anchor on this tick: \<open>componentRef\<close> is \<open>undefined\<close> or \<open>null\<close>.\<close>

definition hostAbsent :: "Inputs \<Rightarrow> bool" where
  "hostAbsent inp = (componentRef inp = Undefined \<or> componentRef inp = Null)"

text \<open>Consecutive ticks; the first that throws ends the run.\<close>

fun ticks :: "Inputs list \<Rightarrow> Engine \<Rightarrow> unit result" where
  "ticks [] s = (Inr (), s)"
| "ticks (inp # inps) s =
     (case ngDoCheck inp s of (Inl e, s') \<Rightarrow> (Inl e, s') | (Inr u, s') \<Rightarrow> ticks inps s')"

text \<open>Construction succeeds: every constructor dependency resolves and the constructor
  returns. None of the six init hooks of the class throws.\<close>

definition constructible :: "HostRef \<Rightarrow> Engine \<Rightarrow> DirType \<Rightarrow> bool" where
  "constructible c s t =
     ((\<forall>dep \<in> set (resolveDirParamTypes s t). resolves c dep) \<and> \<not> ctorThrows t)"

definition init_ok :: "DirType \<Rightarrow> bool" where
  "init_ok t = (\<forall>h \<in> set init_hook_order. map_of (methods t) h \<noteq> Some True)"

text \<open>The record and the port that \<open>initDirective\<close> builds for a class on a host, with
  the instance and port numbers it draws; the events of one successful creation;
  and the state after it.\<close>

definition new_ref :: "HostRef \<Rightarrow> DirType \<Rightarrow> nat \<Rightarrow> DirectiveRef" where
  "new_ref c t n =
     \<lparr>dr_instance = \<lparr>inst_id = n, inst_class = t\<rparr>, dr_type = t, dr_injector = cr_injector c,
      dr_hostComponent = cr_instance c, dr_hostView = cr_hostView c, dr_location = cr_location c,
      dr_changeDetectorRef = cr_changeDetectorRef c, dr_onDestroy = cr_onDestroy c\<rparr>"

definition new_io :: "HostRef \<Rightarrow> DirType \<Rightarrow> nat \<Rightarrow> nat \<Rightarrow> IoService" where
  "new_io c t n p =
     \<lparr>io_id = p, io_componentRef = dirToCompDef c (new_ref c t n), io_trackOutputChanges = True\<rparr>"

definition init_events :: "DynamicDirectiveDef \<Rightarrow> nat \<Rightarrow> nat \<Rightarrow> event list" where
  "init_events d n p =
     [EvConstruct (def_type d) n, EvIoCreate p n, EvIoUpdate p (def_inputs d) (def_outputs d)] @
     map (EvHook n) (filter (exposes \<lparr>inst_id = n, inst_class = def_type d\<rparr>) init_hook_order)"

definition attach :: "HostRef \<Rightarrow> DynamicDirectiveDef \<Rightarrow> Engine \<Rightarrow> Engine" where
  "attach c d s =
     s\<lparr>dirRef := Map_set (def_type d) (new_ref c (def_type d) (nextInst s)) (dirRef s),
       dirIo := Map_set (def_type d) (new_io c (def_type d) (nextInst s) (nextIo s)) (dirIo s),
       nextInst := Suc (nextInst s), nextIo := Suc (nextIo s),
       trace := trace s @ init_events d (nextInst s) (nextIo s)\<rparr>"

text \<open>What the refresh of one declared entry adds to the trace, and the declared list
  as the differ sees it (an absent list is the empty one).\<close>

definition refresh_events :: "(DirType \<times> IoService) list \<Rightarrow> DynamicDirectiveDef \<Rightarrow> event list" where
  "refresh_events ports d =
     (case map_of ports (def_type d) of
        None \<Rightarrow> []
      | Some io \<Rightarrow> [EvIoUpdate (io_id io) (def_inputs d) (def_outputs d)])"

definition declared :: "Inputs \<Rightarrow> DynamicDirectiveDef list" where
  "declared inp = (case directives inp of None \<Rightarrow> [] | Some ds \<Rightarrow> ds)"

text \<open>The store invariant of the specification: both maps have the same keys, and each
  key once.\<close>

definition store_inv :: "Engine \<Rightarrow> bool" where
  "store_inv s =
     (set (Map_keys (dirRef s)) = set (Map_keys (dirIo s)) \<and>
      distinct (Map_keys (dirRef s)) \<and> distinct (Map_keys (dirIo s)))"

text \<open>An error thrown by one of the six init hooks.\<close>

definition init_hook_error :: "error \<Rightarrow> bool" where
  "init_hook_error e = (case e of HookError h \<Rightarrow> h \<in> set init_hook_order | _ \<Rightarrow> False)"

text \<open>The notifications and the constructions recorded in a piece of trace.\<close>

fun emit_of :: "event \<Rightarrow> DirectiveRef list list" where
  "emit_of (EvEmit rs) = [rs]"
| "emit_of e = []"

definition emitted :: "event list \<Rightarrow> DirectiveRef list list" where
  "emitted es = concat (map emit_of es)"

fun construct_of :: "event \<Rightarrow> DirType list" where
  "construct_of (EvConstruct t n) = [t]"
| "construct_of e = []"

definition constructed :: "event list \<Rightarrow> DirType list" where
  "constructed es = concat (map construct_of es)"

text \<open>A run of the engine: update ticks and shutdowns, each applied to the state that
  the one before it left, whether that one returned or threw.\<close>

datatype operation = Tick Inputs | Shutdown

fun perform :: "operation \<Rightarrow> Engine \<Rightarrow> unit result" where
  "perform (Tick inp) s = ngDoCheck inp s"
| "perform Shutdown s = ngOnDestroy s"

fun run :: "operation list \<Rightarrow> Engine \<Rightarrow> Engine" where
  "run [] s = s"
| "run (x # xs) s = run xs (snd (perform x s))"

text \<open>An operation that an init hook aborted by throwing, and a run in which some
  operation was aborted so.\<close>

definition aborted_by_init_hook :: "unit result \<Rightarrow> bool" where
  "aborted_by_init_hook r = (case fst r of Inl e \<Rightarrow> init_hook_error e | Inr u \<Rightarrow> False)"

fun init_aborts :: "operation list \<Rightarrow> Engine \<Rightarrow> bool" where
  "init_aborts [] s = False"
| "init_aborts (x # xs) s =
     (aborted_by_init_hook (perform x s) \<or> init_aborts xs (snd (perform x s)))"

text \<open>The keys of the port map that have no record, in store order. One orphan: the
  port map has exactly one key that the record map lacks, and lacks none of the
  record map's.\<close>

definition orphans :: "Engine \<Rightarrow> DirType list" where
  "orphans s = filter (\<lambda>k. k \<notin> set (Map_keys (dirRef s))) (Map_keys (dirIo s))"

definition one_orphan :: "Engine \<Rightarrow> bool" where
  "one_orphan s =
     (length (orphans s) = 1 \<and> set (Map_keys (dirRef s)) \<subseteq> set (Map_keys (dirIo s)))"

section \<open>Example classes and hosts\<close>

definition noReflect :: "DirType \<Rightarrow> Token list option" where
  "noReflect t = None"

definition exHost :: HostRef where
  "exHost =
     \<lparr>cr_instance = 1, cr_injector = [''Renderer2''], cr_hostView = 10, cr_location = 11,
      cr_changeDetectorRef = 12, cr_onDestroy = 13, cr_destroy = 14,
      cr_componentType = ''HostComponent''\<rparr>"

definition tyA :: DirType where
  "tyA = \<lparr>type_name = ''A'', ctorParameters = None, ctorThrows = False,
          methods = [(''ngOnInit'', False), (''ngAfterViewInit'', False), (''ngOnDestroy'', False)]\<rparr>"

definition tyB :: DirType where
  "tyB = \<lparr>type_name = ''B'', ctorParameters = Some [\<lparr>param_type = ''ElementRef''\<rparr>],
          ctorThrows = False, methods = [(''ngDoCheck'', False)]\<rparr>"

definition tyC :: DirType where
  "tyC = \<lparr>type_name = ''C'', ctorParameters = Some [\<lparr>param_type = ''Renderer2''\<rparr>],
          ctorThrows = False, methods = []\<rparr>"

definition exHost2 :: HostRef where
  "exHost2 =
     \<lparr>cr_instance = 2, cr_injector = [''Renderer2''], cr_hostView = 20, cr_location = 21,
      cr_changeDetectorRef = 22, cr_onDestroy = 23, cr_destroy = 24,
      cr_componentType = ''OtherHostComponent''\<rparr>"

definition exHost3 :: HostRef where
  "exHost3 =
     \<lparr>cr_instance = 3, cr_injector = [], cr_hostView = 30, cr_location = 31,
      cr_changeDetectorRef = 32, cr_onDestroy = 33, cr_destroy = 34,
      cr_componentType = ''BareHostComponent''\<rparr>"

definition tyX :: DirType where
  "tyX = \<lparr>type_name = ''X'', ctorParameters = None, ctorThrows = False,
          methods = [(''ngOnDestroy'', True)]\<rparr>"

definition tyH :: DirType where
  "tyH = \<lparr>type_name = ''H'', ctorParameters = None, ctorThrows = False,
          methods = [(''ngOnInit'', True)]\<rparr>"

definition tyD :: DirType where
  "tyD = \<lparr>type_name = ''D'', ctorParameters = Some [\<lparr>param_type = ''MissingService''\<rparr>],
          ctorThrows = False, methods = [(''ngOnInit'', False)]\<rparr>"

definition defOf :: "DirType \<Rightarrow> DynamicDirectiveDef" where
  "defOf t = dynamicDirectiveDef t None None"

definition defA1 :: DynamicDirectiveDef where
  "defA1 = dynamicDirectiveDef tyA (Some [(''label'', ''one'')]) None"

definition defA2 :: DynamicDirectiveDef where
  "defA2 = dynamicDirectiveDef tyA (Some [(''label'', ''two'')]) None"

definition tickOn :: "HostRef \<Rightarrow> DynamicDirectiveDef list \<Rightarrow> Inputs" where
  "tickOn c ds = \<lparr>ndcDynamicDirectives = Some ds, ngComponentOutletNdcDynamicDirectives = None,
                  componentInjector = Some (Val c)\<rparr>"

definition tickNoHost :: "DynamicDirectiveDef list \<Rightarrow> Inputs" where
  "tickNoHost ds = \<lparr>ndcDynamicDirectives = Some ds, ngComponentOutletNdcDynamicDirectives = None,
                  componentInjector = Some Null\<rparr>"

section \<open>Events and hooks\<close>

lemma add_events_Nil [simp]: "add_events [] s = s"
  by (simp add: add_events_def)

lemma add_events_add_events [simp]: "add_events es (add_events es' s) = add_events (es' @ es) s"
  by (simp add: add_events_def)

lemma record_event_add: "record_event e s = add_events [e] s"
  by (simp add: record_event_def add_events_def)

lemma dirIo_add_events [simp]: "dirIo (add_events es s) = dirIo s"
  and dirRef_add_events [simp]: "dirRef (add_events es s) = dirRef s"
  and dirsDiffer_add_events [simp]: "dirsDiffer (add_events es s) = dirsDiffer s"
  and lastComp_add_events [simp]: "lastCompInstance (add_events es s) = lastCompInstance s"
  and reflect_add_events [simp]: "reflectService (add_events es s) = reflectService s"
  and nextInst_add_events [simp]: "nextInst (add_events es s) = nextInst s"
  and nextIo_add_events [simp]: "nextIo (add_events es s) = nextIo s"
  and trace_add_events [simp]: "trace (add_events es s) = trace s @ es"
  by (simp_all add: add_events_def)

text \<open>The six calls of \<open>callInitHooks\<close> are one loop over the order.\<close>

lemma callInitHooks_forEach: "callInitHooks obj s = forEachE (callHook obj) init_hook_order s"
  by (simp add: callInitHooks_def bindE_def init_hook_order_def split: prod.splits sum.splits)

lemma callHook_absent: "\<not> exposes obj h \<Longrightarrow> callHook obj h s = (Inr (), s)"
  by (simp add: callHook_def exposes_def)

lemma callHook_ok:
  "exposes obj h \<Longrightarrow> \<not> hook_throws obj h \<Longrightarrow>
   callHook obj h s = (Inr (), add_events [EvHook (inst_id obj) h] s)"
  by (simp add: callHook_def exposes_def hook_throws_def invoke_def record_event_add)

lemma callHook_throw:
  "hook_throws obj h \<Longrightarrow>
   callHook obj h s = (Inl (HookError h), add_events [EvHook (inst_id obj) h] s)"
  by (simp add: callHook_def hook_throws_def invoke_def record_event_add)

lemma forEach_callHook_ok:
  "\<forall>h \<in> set hs. \<not> hook_throws obj h \<Longrightarrow>
   forEachE (callHook obj) hs s =
     (Inr (), add_events (map (EvHook (inst_id obj)) (filter (exposes obj) hs)) s)"
proof (induction hs arbitrary: s)
  case Nil
  then show ?case by simp
next
  case (Cons h hs)
  then show ?case
    by (cases "exposes obj h") (simp_all add: callHook_absent callHook_ok)
qed

lemma forEach_callHook_prefix:
  "\<exists>k. snd (forEachE (callHook obj) hs s) =
         add_events (map (EvHook (inst_id obj)) (take k (filter (exposes obj) hs))) s"
proof (induction hs arbitrary: s)
  case Nil
  then show ?case by simp
next
  case (Cons h hs)
  show ?case
  proof (cases "exposes obj h")
    case False
    then show ?thesis using Cons [of s] by (simp add: callHook_absent)
  next
    case True
    show ?thesis
    proof (cases "hook_throws obj h")
      case True
      have "snd (forEachE (callHook obj) (h # hs) s) =
            add_events (map (EvHook (inst_id obj)) (take (Suc 0) (filter (exposes obj) (h # hs)))) s"
        using True \<open>exposes obj h\<close> by (simp add: callHook_throw)
      then show ?thesis by blast
    next
      case False
      from Cons [of "add_events [EvHook (inst_id obj) h] s"] obtain k where
        "snd (forEachE (callHook obj) hs (add_events [EvHook (inst_id obj) h] s)) =
           add_events (map (EvHook (inst_id obj)) (take k (filter (exposes obj) hs)))
             (add_events [EvHook (inst_id obj) h] s)" by blast
      then have "snd (forEachE (callHook obj) (h # hs) s) =
            add_events (map (EvHook (inst_id obj)) (take (Suc k) (filter (exposes obj) (h # hs)))) s"
        using False True by (simp add: callHook_ok)
      then show ?thesis by blast
    qed
  qed
qed

section \<open>Map operations\<close>

lemma map_of_Map_set: "map_of (Map_set k v m) = (map_of m)(k \<mapsto> v)"
  by (induction m) (auto simp: fun_eq_iff)

lemma map_of_Map_delete: "map_of (Map_delete k m) = (map_of m)(k := None)"
  by (induction m) (auto simp: fun_eq_iff)

lemma keys_Map_set:
  "map fst (Map_set k v m) = (if k \<in> set (map fst m) then map fst m else map fst m @ [k])"
  by (induction m) force+

lemma keys_Map_delete: "map fst (Map_delete k m) = removeAll k (map fst m)"
  by (induction m) auto

lemma Map_set_fresh: "map_of m k = None \<Longrightarrow> Map_set k v m = m @ [(k, v)]"
  by (induction m) (auto split: if_splits)

lemma Map_delete_absent: "map_of m k = None \<Longrightarrow> Map_delete k m = m"
  by (induction m) (auto split: if_splits)

lemma map_of_None_keys: "(map_of m k = None) = (k \<notin> set (map fst m))"
  by (induction m) auto

section \<open>Evaluation on examples\<close>

lemmas engine_defs =
  ngDoCheck_def ngOnDestroy_def maybeDestroyDirectives_def isCompChanged_def compInstance_def
  componentRef_def directives_def differ_diff_def processDirChanges_def updateDirectives_def
  updateDirective_def destroyDirective_def destroyAllDirectives_def destroyDirRef_def
  initDirective_def initDirIO_def dirToCompDef_def callInitHooks_def callHook_def invoke_def
  createDirective_def resolves_def resolveDirParamTypes_def extractNgParamTypes_def
  isOnDestroy_def hostInjector_def record_event_def bindE_def returnE_def
  Map_get_def Map_has_def Map_keys_def newEngine_def dynamicDirectiveDef_def Let_def

lemmas example_defs = tyA_def tyB_def tyC_def tyX_def exHost_def noReflect_def defOf_def
  tickOn_def tickNoHost_def

lemma types_distinct: "tyA \<noteq> tyB" "tyA \<noteq> tyC" "tyB \<noteq> tyC"
  by (simp_all add: example_defs)

lemma def_type_defOf [simp]: "def_type (defOf t) = t"
  and def_inputs_defOf [simp]: "def_inputs (defOf t) = None"
  and def_outputs_defOf [simp]: "def_outputs (defOf t) = None"
  by (simp_all add: defOf_def dynamicDirectiveDef_def)

lemma tickOn_simps [simp]:
  "componentRef (tickOn c ds) = Val c" "directives (tickOn c ds) = Some ds"
  "declared (tickOn c ds) = ds"
  by (simp_all add: componentRef_def directives_def declared_def tickOn_def)

lemma new_ref_simps [simp]:
  "dr_type (new_ref c t n) = t" "inst_id (dr_instance (new_ref c t n)) = n"
  "inst_class (dr_instance (new_ref c t n)) = t" "io_id (new_io c t n p) = p"
  by (simp_all add: new_ref_def new_io_def)

lemma first_tick_AB:
  "snd (ngDoCheck (tickOn exHost [defOf tyA, defOf tyB]) (newEngine noReflect)) =
     \<lparr>lastCompInstance = Val 1,
      dirRef = [(tyA, new_ref exHost tyA 0), (tyB, new_ref exHost tyB 1)],
      dirIo = [(tyA, new_io exHost tyA 0 0), (tyB, new_io exHost tyB 1 1)],
      dirsDiffer = [defOf tyA, defOf tyB], reflectService = noReflect,
      trace = [EvConstruct tyA 0, EvIoCreate 0 0, EvIoUpdate 0 None None, EvHook 0 ''ngOnInit'',
               EvHook 0 ''ngAfterViewInit'', EvConstruct tyB 1, EvIoCreate 1 1, EvIoUpdate 1 None None,
               EvHook 1 ''ngDoCheck'', EvEmit [new_ref exHost tyA 0, new_ref exHost tyB 1]],
      nextInst = 2, nextIo = 2\<rparr>"
  by (simp add: engine_defs example_defs new_ref_def new_io_def)

lemma example_hooks:
  "teardown_ok (new_ref c tyA n)" "teardown_ok (new_ref c tyB n)" "teardown_ok (new_ref c tyC n)"
  "exposes (dr_instance (new_ref c tyA n)) ''ngOnDestroy''"
  "\<not> exposes (dr_instance (new_ref c tyB n)) ''ngOnDestroy''"
  "\<not> exposes (dr_instance (new_ref c tyC n)) ''ngOnDestroy''"
  by (simp_all add: teardown_ok_def hook_throws_def exposes_def example_defs)

lemma example_init_events:
  "init_events (defOf tyA) n p =
     [EvConstruct tyA n, EvIoCreate p n, EvIoUpdate p None None, EvHook n ''ngOnInit'',
      EvHook n ''ngAfterViewInit'']"
  "init_events (defOf tyB) n p =
     [EvConstruct tyB n, EvIoCreate p n, EvIoUpdate p None None, EvHook n ''ngDoCheck'']"
  "init_events (defOf tyC) n p = [EvConstruct tyC n, EvIoCreate p n, EvIoUpdate p None None]"
  by (simp_all add: init_events_def exposes_def init_hook_order_def tyA_def tyB_def tyC_def)

section \<open>Teardown\<close>

lemma destroyDirRef_state:
  "snd (destroyDirRef r s) = add_events (teardown_events (dirIo s) r) s"
  by (simp add: destroyDirRef_def teardown_events_def Map_get_def isOnDestroy_def exposes_def
      invoke_def record_event_add Let_def split: option.splits)

lemma destroyDirRef_result:
  "fst (destroyDirRef r s) = (if teardown_ok r then Inr () else Inl (HookError ''ngOnDestroy''))"
  by (auto simp add: destroyDirRef_def teardown_ok_def hook_throws_def isOnDestroy_def
      invoke_def Let_def split: option.splits)

lemma destroyDirRef_ok:
  "teardown_ok r \<Longrightarrow> destroyDirRef r s = (Inr (), add_events (teardown_events (dirIo s) r) s)"
  using destroyDirRef_state [of r s] destroyDirRef_result [of r s]
  by (cases "destroyDirRef r s") simp

lemma destroyDirRef_throw:
  "\<not> teardown_ok r \<Longrightarrow>
   destroyDirRef r s = (Inl (HookError ''ngOnDestroy''), add_events (teardown_events (dirIo s) r) s)"
  using destroyDirRef_state [of r s] destroyDirRef_result [of r s]
  by (cases "destroyDirRef r s") simp

lemma forEach_destroyDirRef_ok:
  "\<forall>r \<in> set rs. teardown_ok r \<Longrightarrow>
   forEachE destroyDirRef rs s = (Inr (), add_events (concat (map (teardown_events (dirIo s)) rs)) s)"
  by (induction rs arbitrary: s) (simp_all add: destroyDirRef_ok)

lemma forEach_destroyDirRef_state:
  "\<exists>es. snd (forEachE destroyDirRef rs s) = add_events es s"
proof (induction rs arbitrary: s)
  case Nil
  have "snd (forEachE destroyDirRef [] s) = add_events [] s" by simp
  then show ?case by blast
next
  case (Cons r rs)
  show ?case
  proof (cases "teardown_ok r")
    case True
    from Cons [of "add_events (teardown_events (dirIo s) r) s"] obtain es where
      "snd (forEachE destroyDirRef rs (add_events (teardown_events (dirIo s) r) s)) =
         add_events es (add_events (teardown_events (dirIo s) r) s)" by blast
    then have "snd (forEachE destroyDirRef (r # rs) s) = add_events (teardown_events (dirIo s) r @ es) s"
      using True by (simp add: destroyDirRef_ok)
    then show ?thesis by blast
  next
    case False
    then have "snd (forEachE destroyDirRef (r # rs) s) = add_events (teardown_events (dirIo s) r) s"
      by (simp add: destroyDirRef_throw)
    then show ?thesis by blast
  qed
qed

lemma destroyAllDirectives_ok:
  "\<forall>r \<in> set (map snd (dirRef s)). teardown_ok r \<Longrightarrow>
   destroyAllDirectives s =
     (Inr (), (add_events (concat (map (teardown_events (dirIo s)) (map snd (dirRef s)))) s)
                \<lparr>dirRef := [], dirIo := []\<rparr>)"
  by (simp add: destroyAllDirectives_def bindE_def forEach_destroyDirRef_ok)

lemma differ_diff_empty:
  "snd (differ_diff (Some []) s) = s\<lparr>dirsDiffer := []\<rparr>"
  by (simp add: differ_diff_def Let_def)

lemma differ_diff_state: "snd (differ_diff coll s) = s\<lparr>dirsDiffer := (case coll of None \<Rightarrow> [] | Some c \<Rightarrow> c)\<rparr>"
  by (simp add: differ_diff_def Let_def)

lemma maybeDestroy_absent:
  assumes "hostAbsent inp" and "\<forall>r \<in> set (map snd (dirRef s)). teardown_ok r"
  shows "maybeDestroyDirectives inp s =
     (Inr True, s\<lparr>lastCompInstance := compInstance inp, dirsDiffer := [], dirRef := [], dirIo := [],
                 trace := trace s @ concat (map (teardown_events (dirIo s)) (map snd (dirRef s)))\<rparr>)"
proof -
  let ?s1 = "s\<lparr>lastCompInstance := compInstance inp\<rparr>"
  have "\<exists>ch. isCompChanged inp s = (ch, ?s1)"
    by (auto simp: isCompChanged_def)
  then obtain ch where ic: "isCompChanged inp s = (ch, ?s1)" ..
  have d: "destroyAllDirectives (?s1\<lparr>dirsDiffer := []\<rparr>) =
     (Inr (), (add_events (concat (map (teardown_events (dirIo s)) (map snd (dirRef s)))) (?s1\<lparr>dirsDiffer := []\<rparr>))
                \<lparr>dirRef := [], dirIo := []\<rparr>)"
    using destroyAllDirectives_ok [of "?s1\<lparr>dirsDiffer := []\<rparr>"] assms(2) by simp
  show ?thesis
    using assms(1) d
    by (simp add: maybeDestroyDirectives_def ic hostAbsent_def bindE_def differ_diff_empty add_events_def)
qed

lemma ngDoCheck_absent:
  assumes "hostAbsent inp" and "\<forall>r \<in> set (map snd (dirRef s)). teardown_ok r"
  shows "ngDoCheck inp s =
     (Inr (), s\<lparr>lastCompInstance := compInstance inp, dirsDiffer := [], dirRef := [], dirIo := [],
                 trace := trace s @ concat (map (teardown_events (dirIo s)) (map snd (dirRef s)))\<rparr>)"
  by (simp add: ngDoCheck_def maybeDestroy_absent [OF assms])

lemma maybeDestroy_changed:
  assumes "componentRef inp = Val c" and "lastCompInstance s \<noteq> Val (cr_instance c)"
    and "\<forall>r \<in> set (map snd (dirRef s)). teardown_ok r"
  shows "maybeDestroyDirectives inp s =
     (Inr False, s\<lparr>lastCompInstance := Val (cr_instance c), dirsDiffer := [], dirRef := [], dirIo := [],
                 trace := trace s @ concat (map (teardown_events (dirIo s)) (map snd (dirRef s)))\<rparr>)"
proof -
  have ci: "compInstance inp = Val (cr_instance c)"
    using assms(1) by (simp add: compInstance_def)
  let ?s1 = "s\<lparr>lastCompInstance := Val (cr_instance c)\<rparr>"
  have ic: "isCompChanged inp s = (True, ?s1)"
    using assms(2) by (simp add: isCompChanged_def ci)
  have d: "destroyAllDirectives (?s1\<lparr>dirsDiffer := []\<rparr>) =
     (Inr (), (add_events (concat (map (teardown_events (dirIo s)) (map snd (dirRef s)))) (?s1\<lparr>dirsDiffer := []\<rparr>))
                \<lparr>dirRef := [], dirIo := []\<rparr>)"
    using destroyAllDirectives_ok [of "?s1\<lparr>dirsDiffer := []\<rparr>"] assms(3) by simp
  show ?thesis
    using assms(1) d
    by (simp add: maybeDestroyDirectives_def ic bindE_def differ_diff_empty add_events_def)
qed

lemma maybeDestroy_stable:
  assumes "componentRef inp = Val c" and "lastCompInstance s = Val (cr_instance c)"
  shows "maybeDestroyDirectives inp s = (Inr False, s)"
proof -
  have ci: "compInstance inp = Val (cr_instance c)"
    using assms(1) by (simp add: compInstance_def)
  show ?thesis using assms
    by (simp add: maybeDestroyDirectives_def isCompChanged_def ci bindE_def returnE_def)
qed

lemma absent_first_tick:
  assumes "hostAbsent inp" and "ngDoCheck inp s = (Inr (), s1)"
  shows "dirRef s1 = [] \<and> dirIo s1 = [] \<and> dirsDiffer s1 = []"
proof -
  have "\<exists>ch. isCompChanged inp s = (ch, s\<lparr>lastCompInstance := compInstance inp\<rparr>)"
    by (auto simp: isCompChanged_def)
  then obtain ch where ic: "isCompChanged inp s = (ch, s\<lparr>lastCompInstance := compInstance inp\<rparr>)" ..
  let ?t = "s\<lparr>lastCompInstance := compInstance inp, dirsDiffer := []\<rparr>"
  obtain es where es: "snd (forEachE destroyDirRef (map snd (dirRef s)) ?t) = add_events es ?t"
    using forEach_destroyDirRef_state by blast
  show ?thesis
    using assms es
    by (auto simp: ngDoCheck_def maybeDestroyDirectives_def ic hostAbsent_def bindE_def
        destroyAllDirectives_def differ_diff_empty split: prod.splits sum.splits bool.splits)
qed

lemma absent_idle_tick:
  assumes "hostAbsent inp" and "dirRef s = []" and "dirIo s = []" and "dirsDiffer s = []"
  shows "ngDoCheck inp s = (Inr (), s\<lparr>lastCompInstance := compInstance inp\<rparr>)"
  using ngDoCheck_absent [of inp s] assms by simp

section \<open>Creation\<close>

lemma createDirective_ok:
  "constructible c s t \<Longrightarrow>
   createDirective c t s =
     (Inr \<lparr>inst_id = nextInst s, inst_class = t\<rparr>,
      s\<lparr>nextInst := Suc (nextInst s), trace := trace s @ [EvConstruct t (nextInst s)]\<rparr>)"
  by (simp add: createDirective_def constructible_def record_event_def filter_empty_conv
      split: list.splits)

lemma createDirective_fail:
  "fst (createDirective c t s) = Inl e \<Longrightarrow> createDirective c t s = (Inl e, s)"
  by (auto simp: createDirective_def split: list.splits if_splits)

lemma createDirective_fail_iff:
  "(\<exists>e. fst (createDirective c t s) = Inl e) = (\<not> constructible c s t)"
proof (cases "filter (\<lambda>dep. \<not> resolves c dep) (resolveDirParamTypes s t)")
  case Nil
  then show ?thesis
    by (simp add: createDirective_def constructible_def filter_empty_conv)
next
  case (Cons dep rest)
  then have "dep \<in> set (filter (\<lambda>dep. \<not> resolves c dep) (resolveDirParamTypes s t))"
    by simp
  then have "\<not> constructible c s t"
    by (auto simp: constructible_def)
  then show ?thesis
    using Cons by (simp add: createDirective_def)
qed

lemma callInitHooks_ok:
  "init_ok t \<Longrightarrow>
   callInitHooks \<lparr>inst_id = n, inst_class = t\<rparr> s =
     (Inr (), add_events (map (EvHook n)
        (filter (exposes \<lparr>inst_id = n, inst_class = t\<rparr>) init_hook_order)) s)"
  using forEach_callHook_ok [of init_hook_order "\<lparr>inst_id = n, inst_class = t\<rparr>" s]
  by (simp add: callInitHooks_forEach init_ok_def hook_throws_def)

lemma initDirective_present:
  "Map_has (dirRef s) (def_type d) \<Longrightarrow> initDirective c d s = (Inr None, s)"
  by (simp add: initDirective_def)

lemma initDirective_fail:
  "\<not> Map_has (dirRef s) (def_type d) \<Longrightarrow> fst (createDirective c (def_type d) s) = Inl e \<Longrightarrow>
   initDirective c d s = (Inl e, s)"
  using createDirective_fail [of c "def_type d" s e] by (simp add: initDirective_def)

lemma initDirective_fresh:
  assumes "\<not> Map_has (dirRef s) (def_type d)" and "constructible c s (def_type d)"
    and "init_ok (def_type d)"
  shows "initDirective c d s = (Inr (Some (new_ref c (def_type d) (nextInst s))), attach c d s)"
  using assms
  by (simp add: initDirective_def createDirective_ok initDirIO_def Let_def callInitHooks_ok
      record_event_def add_events_def new_ref_def new_io_def attach_def init_events_def
      hostInjector_def)

lemma destroyDirective_attached:
  assumes "Map_get (dirRef s) (def_type d) = Some r" and "teardown_ok r"
  shows "destroyDirective d s =
     (Inr (), s\<lparr>dirRef := Map_delete (def_type d) (dirRef s),
                 dirIo := Map_delete (def_type d) (dirIo s),
                 trace := trace s @ teardown_events (dirIo s) r\<rparr>)"
  using assms by (simp add: destroyDirective_def bindE_def destroyDirRef_ok add_events_def)

lemma constructible_frame:
  "reflectService s' = reflectService s \<Longrightarrow> constructible c s' t = constructible c s t"
  by (simp add: constructible_def resolveDirParamTypes_def cong: option.case_cong)

lemma constructible_examples:
  "reflectService s = noReflect \<Longrightarrow> constructible exHost s tyA"
  "constructible exHost s tyB" "constructible exHost s tyC"
  by (simp_all add: constructible_def resolveDirParamTypes_def extractNgParamTypes_def resolves_def
      hostInjector_def example_defs)

lemma constructible_examples2:
  "reflectService s = noReflect \<Longrightarrow> constructible exHost2 s tyA"
  "constructible exHost2 s tyB"
  by (simp_all add: constructible_def resolveDirParamTypes_def extractNgParamTypes_def resolves_def
      hostInjector_def example_defs exHost2_def)

lemma init_ok_examples: "init_ok tyA" "init_ok tyB" "init_ok tyC"
  by (simp_all add: init_ok_def init_hook_order_def example_defs)

section \<open>Refresh\<close>

lemma updateDirective_events: "updateDirective d s = add_events (refresh_events (dirIo s) d) s"
  by (simp add: updateDirective_def refresh_events_def Map_get_def record_event_add
      split: option.splits)

lemma fold_updateDirective:
  "fold updateDirective ds s = add_events (concat (map (refresh_events (dirIo s)) ds)) s"
  by (induction ds arbitrary: s) (simp_all add: updateDirective_events)

lemma updateDirectives_events:
  "updateDirectives inp s = add_events (concat (map (refresh_events (dirIo s)) (declared inp))) s"
  by (simp add: updateDirectives_def declared_def fold_updateDirective split: option.splits)

section \<open>The store invariant\<close>

lemma store_inv_add_events [simp]: "store_inv (add_events es s) = store_inv s"
  by (simp add: store_inv_def)

lemma store_inv_fields [simp]:
  "store_inv (s\<lparr>lastCompInstance := x\<rparr>) = store_inv s"
  "store_inv (s\<lparr>dirsDiffer := y\<rparr>) = store_inv s"
  "store_inv (s\<lparr>trace := z\<rparr>) = store_inv s"
  by (simp_all add: store_inv_def)

lemma store_inv_delete:
  "store_inv s \<Longrightarrow>
   store_inv (s\<lparr>dirRef := Map_delete k (dirRef s), dirIo := Map_delete k (dirIo s)\<rparr>)"
  by (simp add: store_inv_def Map_keys_def keys_Map_delete distinct_removeAll)

lemma store_inv_set:
  "store_inv s \<Longrightarrow>
   store_inv (s\<lparr>dirRef := Map_set k r (dirRef s), dirIo := Map_set k io (dirIo s)\<rparr>)"
  by (auto simp: store_inv_def Map_keys_def keys_Map_set)

lemma store_inv_attach: "store_inv s \<Longrightarrow> store_inv (attach c d s)"
  by (auto simp: store_inv_def attach_def Map_keys_def keys_Map_set)

lemma store_inv_new: "store_inv (newEngine reflect)"
  by (simp add: store_inv_def newEngine_def Map_keys_def)

lemma destroyAllDirectives_inv:
  assumes "store_inv s"
  shows "store_inv (snd (destroyAllDirectives s))"
proof -
  obtain es where es: "snd (forEachE destroyDirRef (map snd (dirRef s)) s) = add_events es s"
    using forEach_destroyDirRef_state by blast
  show ?thesis
  proof (cases "forEachE destroyDirRef (map snd (dirRef s)) s")
    case (Pair r s')
    with es have s': "s' = add_events es s" by simp
    show ?thesis
    proof (cases r)
      case (Inl e)
      then show ?thesis using Pair s' assms by (simp add: destroyAllDirectives_def bindE_def)
    next
      case (Inr u)
      then show ?thesis using Pair
        by (simp add: destroyAllDirectives_def bindE_def store_inv_def Map_keys_def)
    qed
  qed
qed

lemma destroyDirective_inv:
  assumes "store_inv s"
  shows "store_inv (snd (destroyDirective d s))"
proof (cases "Map_get (dirRef s) (def_type d)")
  case None
  then show ?thesis
    using store_inv_delete [OF assms] by (simp add: destroyDirective_def bindE_def returnE_def)
next
  case (Some r)
  show ?thesis
  proof (cases "teardown_ok r")
    case True
    have "store_inv ((add_events (teardown_events (dirIo s) r) s)
        \<lparr>dirRef := Map_delete (def_type d) (dirRef s), dirIo := Map_delete (def_type d) (dirIo s)\<rparr>)"
      using store_inv_delete [of "add_events (teardown_events (dirIo s) r) s" "def_type d"] assms
      by simp
    then show ?thesis
      using Some True by (simp add: destroyDirective_def bindE_def destroyDirRef_ok)
  next
    case False
    then show ?thesis
      using Some assms by (simp add: destroyDirective_def bindE_def destroyDirRef_throw)
  qed
qed

lemma forEach_destroyDirective_inv:
  "store_inv s \<Longrightarrow> store_inv (snd (forEachE destroyDirective ds s))"
proof (induction ds arbitrary: s)
  case Nil
  then show ?case by simp
next
  case (Cons d ds)
  show ?case
  proof (cases "destroyDirective d s")
    case (Pair r s')
    then have inv: "store_inv s'" using destroyDirective_inv [OF Cons.prems, of d] by simp
    show ?thesis
      using Pair inv Cons.IH [of s'] by (cases r) simp_all
  qed
qed

lemma forEach_callHook_result:
  "fst (forEachE (callHook obj) hs s) = Inr () \<or>
   (\<exists>h \<in> set hs. fst (forEachE (callHook obj) hs s) = Inl (HookError h))"
proof (induction hs arbitrary: s)
  case Nil
  then show ?case by simp
next
  case (Cons h hs)
  show ?case
  proof (cases "hook_throws obj h")
    case True
    then show ?thesis by (simp add: callHook_throw)
  next
    case False
    show ?thesis
    proof (cases "exposes obj h")
      case True
      then show ?thesis
        using False Cons.IH [of "add_events [EvHook (inst_id obj) h] s"]
        by (auto simp: callHook_ok)
    next
      case False
      then show ?thesis using Cons.IH [of s] by (auto simp: callHook_absent)
    qed
  qed
qed

lemma callInitHooks_error:
  "fst (callInitHooks obj s) = Inl e \<Longrightarrow> init_hook_error e"
  using forEach_callHook_result [of obj init_hook_order s]
  by (auto simp: callInitHooks_forEach init_hook_error_def)

lemma callInitHooks_state: "\<exists>es. snd (callInitHooks obj s) = add_events es s"
  using forEach_callHook_prefix [of obj init_hook_order s] by (auto simp: callInitHooks_forEach)

lemma initDirIO_state:
  "initDirIO c r d s =
     (add_events [EvIoCreate (nextIo s) (inst_id (dr_instance r)),
                  EvIoUpdate (nextIo s) (def_inputs d) (def_outputs d)] s)
       \<lparr>nextIo := Suc (nextIo s),
        dirIo := Map_set (dr_type r)
          \<lparr>io_id = nextIo s, io_componentRef = dirToCompDef c r, io_trackOutputChanges = True\<rparr>
          (dirIo s)\<rparr>"
  by (simp add: initDirIO_def Let_def record_event_def add_events_def)

lemma initDirective_inv:
  assumes "store_inv s" and "\<forall>e. fst (initDirective c d s) = Inl e \<longrightarrow> \<not> init_hook_error e"
  shows "store_inv (snd (initDirective c d s))"
proof (cases "Map_has (dirRef s) (def_type d)")
  case True
  then show ?thesis using assms(1) by (simp add: initDirective_present)
next
  case False
  show ?thesis
  proof (cases "constructible c s (def_type d)")
    case False
    then obtain e where "fst (createDirective c (def_type d) s) = Inl e"
      using createDirective_fail_iff [of c "def_type d" s] by blast
    then show ?thesis
      using initDirective_fail [OF \<open>\<not> Map_has (dirRef s) (def_type d)\<close>] assms(1) by simp
  next
    case True
    define r where "r = new_ref c (def_type d) (nextInst s)"
    define s1 where "s1 = s\<lparr>nextInst := Suc (nextInst s),
        trace := trace s @ [EvConstruct (def_type d) (nextInst s)]\<rparr>"
    define s2 where "s2 = initDirIO c r d s1"
    obtain es where es: "snd (callInitHooks (dr_instance r) s2) = add_events es s2"
      using callInitHooks_state by blast
    have io: "dirIo s2 = Map_set (def_type d)
          \<lparr>io_id = nextIo s, io_componentRef = dirToCompDef c r, io_trackOutputChanges = True\<rparr>
          (dirIo s)" "dirRef s2 = dirRef s"
      by (simp_all add: s2_def s1_def initDirIO_state r_def)
    have unfold: "initDirective c d s =
      (case callInitHooks (dr_instance r) s2 of
         (Inl e, s3) \<Rightarrow> (Inl e, s3)
       | (Inr u, s3) \<Rightarrow> (Inr (Some r), s3\<lparr>dirRef := Map_set (def_type d) r (dirRef s3)\<rparr>))"
      using False True unfolding s2_def s1_def r_def new_ref_def
      by (simp add: initDirective_def createDirective_ok Let_def hostInjector_def
          split: prod.splits sum.splits)
    show ?thesis
    proof (cases "callInitHooks (dr_instance r) s2")
      case (Pair x s3)
      with es have s3: "s3 = add_events es s2" by simp
      show ?thesis
      proof (cases x)
        case (Inl e)
        then have "init_hook_error e"
          using callInitHooks_error [of "dr_instance r" s2 e] Pair by simp
        moreover have "fst (initDirective c d s) = Inl e"
          using unfold Pair Inl by simp
        ultimately show ?thesis using assms(2) by blast
      next
        case (Inr u)
        have "store_inv (s\<lparr>dirRef := Map_set (def_type d) r (dirRef s),
            dirIo := Map_set (def_type d)
              \<lparr>io_id = nextIo s, io_componentRef = dirToCompDef c r, io_trackOutputChanges = True\<rparr>
              (dirIo s)\<rparr>)"
          using store_inv_set [OF assms(1)] .
        then have "store_inv (s3\<lparr>dirRef := Map_set (def_type d) r (dirRef s3)\<rparr>)"
          by (simp add: store_inv_def s3 io)
        then show ?thesis using unfold Pair Inr by simp
      qed
    qed
  qed
qed

lemma forEachAddedItem_inv:
  "store_inv s \<Longrightarrow> \<forall>e. fst (forEachAddedItem c items cr s) = Inl e \<longrightarrow> \<not> init_hook_error e \<Longrightarrow>
   store_inv (snd (forEachAddedItem c items cr s))"
proof (induction items arbitrary: cr s)
  case Nil
  then show ?case by simp
next
  case (Cons d items)
  show ?case
  proof (cases "initDirective c d s")
    case (Pair x s')
    show ?thesis
    proof (cases x)
      case (Inl e)
      then have "\<not> init_hook_error e" using Cons.prems(2) Pair by simp
      then have "store_inv s'"
        using initDirective_inv [OF Cons.prems(1), of c d] Pair Inl by simp
      then show ?thesis using Pair Inl by simp
    next
      case (Inr y)
      then have inv: "store_inv s'"
        using initDirective_inv [OF Cons.prems(1), of c d] Pair by simp
      show ?thesis
      proof (cases y)
        case None
        then show ?thesis
          using Pair Inr inv Cons.IH [of s' cr] Cons.prems(2) by simp
      next
        case (Some r)
        then show ?thesis
          using Pair Inr inv Cons.IH [of s' "cr @ [r]"] Cons.prems(2) by simp
      qed
    qed
  qed
qed

lemma processDirChanges_inv:
  assumes "store_inv s"
    and "\<forall>e. fst (processDirChanges c ch s) = Inl e \<longrightarrow> \<not> init_hook_error e"
  shows "store_inv (snd (processDirChanges c ch s))"
proof (cases "forEachE destroyDirective (removedItems ch) s")
  case (Pair x s1)
  then have inv1: "store_inv s1"
    using forEach_destroyDirective_inv [OF assms(1), of "removedItems ch"] by simp
  show ?thesis
  proof (cases x)
    case (Inl e)
    then show ?thesis using Pair inv1 by (simp add: processDirChanges_def bindE_def)
  next
    case (Inr u)
    show ?thesis
    proof (cases "forEachAddedItem c (addedItems ch) [] s1")
      case (Pair y s2)
      have run: "processDirChanges c ch s =
        (case y of Inl e \<Rightarrow> (Inl e, s2)
         | Inr rs \<Rightarrow> (Inr (), if rs \<noteq> [] then record_event (EvEmit rs) s2 else s2))"
        using \<open>forEachE destroyDirective (removedItems ch) s = (x, s1)\<close> Inr Pair
        by (simp add: processDirChanges_def bindE_def split: sum.splits)
      have "\<forall>e. fst (forEachAddedItem c (addedItems ch) [] s1) = Inl e \<longrightarrow> \<not> init_hook_error e"
        using assms(2) run Pair by (auto split: sum.splits)
      then have inv2: "store_inv s2"
        using forEachAddedItem_inv [OF inv1, of c "addedItems ch" "[]"] Pair by simp
      show ?thesis
        using run inv2 by (cases y) (simp_all add: record_event_add)
    qed
  qed
qed

lemma maybeDestroyDirectives_inv:
  assumes "store_inv s"
  shows "store_inv (snd (maybeDestroyDirectives inp s))"
proof -
  have "\<exists>ch. isCompChanged inp s = (ch, s\<lparr>lastCompInstance := compInstance inp\<rparr>)"
    by (auto simp: isCompChanged_def)
  then obtain ch where ic: "isCompChanged inp s = (ch, s\<lparr>lastCompInstance := compInstance inp\<rparr>)" ..
  let ?t = "s\<lparr>lastCompInstance := compInstance inp, dirsDiffer := []\<rparr>"
  have "store_inv (snd (destroyAllDirectives ?t))"
    using destroyAllDirectives_inv [of ?t] assms by simp
  then show ?thesis
    using assms
    by (cases "destroyAllDirectives ?t")
       (auto simp: maybeDestroyDirectives_def ic bindE_def returnE_def differ_diff_empty
          split: sum.splits)
qed

lemma ngDoCheck_inv:
  assumes "store_inv s" and "\<forall>e. fst (ngDoCheck inp s) = Inl e \<longrightarrow> \<not> init_hook_error e"
  shows "store_inv (snd (ngDoCheck inp s))"
proof (cases "maybeDestroyDirectives inp s")
  case (Pair x s1)
  then have inv1: "store_inv s1" using maybeDestroyDirectives_inv [OF assms(1), of inp] by simp
  show ?thesis
  proof (cases x)
    case (Inl e)
    then show ?thesis using Pair inv1 by (simp add: ngDoCheck_def)
  next
    case (Inr b)
    show ?thesis
    proof (cases "b \<or> (\<forall>c. componentRef inp \<noteq> Val c)")
      case True
      then have "ngDoCheck inp s = (Inr (), s1)"
        using Pair Inr by (cases b; cases "componentRef inp") (simp_all add: ngDoCheck_def)
      then show ?thesis using inv1 by simp
    next
      case False
      then obtain c where c: "componentRef inp = Val c" and b: "\<not> b" by blast
      obtain chg where d: "differ_diff (directives inp) s1 = (chg, s1\<lparr>dirsDiffer := declared inp\<rparr>)"
        using differ_diff_state [of "directives inp" s1]
        by (cases "differ_diff (directives inp) s1") (simp add: declared_def)
      let ?s2 = "s1\<lparr>dirsDiffer := declared inp\<rparr>"
      have inv2: "store_inv ?s2" using inv1 by simp
      show ?thesis
      proof (cases chg)
        case None
        then have "ngDoCheck inp s = (Inr (), updateDirectives inp ?s2)"
          using Pair Inr b c d by (simp add: ngDoCheck_def)
        then show ?thesis using inv2 by (simp add: updateDirectives_events)
      next
        case (Some ch)
        then have run: "ngDoCheck inp s = processDirChanges c ch ?s2"
          using Pair Inr b c d by (simp add: ngDoCheck_def)
        then show ?thesis
          using processDirChanges_inv [OF inv2, of c ch] assms(2) by simp
      qed
    qed
  qed
qed

lemma second_tick_BC_ok:
  "fst (ngDoCheck (tickOn exHost [defOf tyB, defOf tyC])
     (snd (ngDoCheck (tickOn exHost [defOf tyA, defOf tyB]) (newEngine noReflect)))) = Inr ()"
  using types_distinct
  by (simp add: first_tick_AB)
     (simp add: engine_defs example_defs new_ref_def new_io_def)

section \<open>A failed construction\<close>

lemma forEachAddedItem_append:
  "forEachAddedItem c (xs @ ys) cr s =
     (case forEachAddedItem c xs cr s of
        (Inl e, s') \<Rightarrow> (Inl e, s')
      | (Inr cr', s') \<Rightarrow> forEachAddedItem c ys cr' s')"
  by (induction xs arbitrary: cr s) (auto split: prod.splits sum.splits option.splits)

lemma initDirective_Some:
  assumes "initDirective c d s = (Inr (Some r), s')"
  shows "dirRef s' = Map_set (dr_type r) r (dirRef s) \<and> \<not> Map_has (dirRef s) (dr_type r)"
proof -
  have nh: "\<not> Map_has (dirRef s) (def_type d)"
    using assms by (auto simp: initDirective_def)
  have cons: "constructible c s (def_type d)"
    using assms nh createDirective_fail_iff [of c "def_type d" s] initDirective_fail [OF nh]
    by (metis Inl_Inr_False fst_conv)
  define r0 where "r0 = new_ref c (def_type d) (nextInst s)"
  define s2 where "s2 = initDirIO c r0 d (s\<lparr>nextInst := Suc (nextInst s),
        trace := trace s @ [EvConstruct (def_type d) (nextInst s)]\<rparr>)"
  obtain es where es: "snd (callInitHooks (dr_instance r0) s2) = add_events es s2"
    using callInitHooks_state by blast
  have ref: "dirRef s2 = dirRef s" by (simp add: s2_def initDirIO_state)
  have unfold: "initDirective c d s =
      (case callInitHooks (dr_instance r0) s2 of
         (Inl e, s3) \<Rightarrow> (Inl e, s3)
       | (Inr u, s3) \<Rightarrow> (Inr (Some r0), s3\<lparr>dirRef := Map_set (def_type d) r0 (dirRef s3)\<rparr>))"
    using nh cons unfolding s2_def r0_def new_ref_def
    by (simp add: initDirective_def createDirective_ok Let_def hostInjector_def
        split: prod.splits sum.splits)
  obtain x s3 where c: "callInitHooks (dr_instance r0) s2 = (x, s3)"
    by (cases "callInitHooks (dr_instance r0) s2")
  with es have s3: "s3 = add_events es s2" by simp
  from assms unfold c have "r = r0" "s' = s3\<lparr>dirRef := Map_set (def_type d) r0 (dirRef s3)\<rparr>"
    by (cases x; simp)+
  then show ?thesis using nh ref s3 by (simp add: r0_def)
qed

lemma initDirective_None: "initDirective c d s = (Inr None, s') \<Longrightarrow> s' = s"
proof (cases "Map_has (dirRef s) (def_type d)")
  case True
  assume "initDirective c d s = (Inr None, s')"
  then show ?thesis using True by (simp add: initDirective_present)
next
  case False
  assume a: "initDirective c d s = (Inr None, s')"
  then show ?thesis using False
    by (auto simp: initDirective_def Let_def split: prod.splits sum.splits)
qed

lemma forEachAddedItem_created:
  "forEachAddedItem c items cr s = (Inr cr', s') \<Longrightarrow>
   \<exists>rs. cr' = cr @ rs \<and>
        (\<forall>r \<in> set rs. Map_get (dirRef s') (dr_type r) = Some r) \<and>
        (\<forall>k v. Map_get (dirRef s) k = Some v \<longrightarrow> Map_get (dirRef s') k = Some v)"
proof (induction items arbitrary: cr s)
  case Nil
  then show ?case by simp
next
  case (Cons d items)
  obtain x s1 where i: "initDirective c d s = (x, s1)" by (cases "initDirective c d s")
  show ?case
  proof (cases x)
    case (Inl e)
    then show ?thesis using Cons.prems i by simp
  next
    case (Inr y)
    show ?thesis
    proof (cases y)
      case None
      then have "s1 = s" using i Inr initDirective_None by simp
      then show ?thesis using Cons.IH [of cr s] Cons.prems i Inr None by simp
    next
      case (Some r)
      have st: "dirRef s1 = Map_set (dr_type r) r (dirRef s)" "\<not> Map_has (dirRef s) (dr_type r)"
        using initDirective_Some [of c d s r s1] i Inr Some by simp_all
      have rest: "forEachAddedItem c items (cr @ [r]) s1 = (Inr cr', s')"
        using Cons.prems i Inr Some by simp
      from Cons.IH [OF rest] obtain rs where rs: "cr' = (cr @ [r]) @ rs"
        "\<forall>r \<in> set rs. Map_get (dirRef s') (dr_type r) = Some r"
        "\<forall>k v. Map_get (dirRef s1) k = Some v \<longrightarrow> Map_get (dirRef s') k = Some v"
        by blast
      have r1: "Map_get (dirRef s1) (dr_type r) = Some r"
        by (simp add: st Map_get_def map_of_Map_set)
      have keep: "\<forall>k v. Map_get (dirRef s) k = Some v \<longrightarrow> Map_get (dirRef s1) k = Some v"
        using st by (auto simp: Map_get_def Map_has_def map_of_Map_set)
      have "cr' = cr @ (r # rs)" using rs(1) by simp
      moreover have "\<forall>r' \<in> set (r # rs). Map_get (dirRef s') (dr_type r') = Some r'"
        using rs(2,3) r1 by simp
      moreover have "\<forall>k v. Map_get (dirRef s) k = Some v \<longrightarrow> Map_get (dirRef s') k = Some v"
        using keep rs(3) by blast
      ultimately show ?thesis by blast
    qed
  qed
qed

lemma createDirective_error_kind:
  "fst (createDirective c t s) = Inl e \<Longrightarrow>
   (\<exists>dep. e = ResolutionError dep) \<or> e = ConstructorError (type_name t)"
  by (auto simp: createDirective_def split: list.splits if_splits)

section \<open>Counting what a tick creates\<close>

lemma emitted_simps [simp]:
  "emitted [] = []" "emitted (es @ es') = emitted es @ emitted es'"
  "emitted (e # es) = emit_of e @ emitted es"
  by (simp_all add: emitted_def)

lemma constructed_simps [simp]:
  "constructed [] = []" "constructed (es @ es') = constructed es @ constructed es'"
  "constructed (e # es) = construct_of e @ constructed es"
  by (simp_all add: constructed_def)

lemma emitted_hooks [simp]: "emitted (map (EvHook n) hs) = []"
  by (induction hs) simp_all

lemma constructed_hooks [simp]: "constructed (map (EvHook n) hs) = []"
  by (induction hs) simp_all

lemma emitted_init_events [simp]: "emitted (init_events d n p) = []"
  by (simp add: init_events_def)

lemma constructed_init_events [simp]: "constructed (init_events d n p) = [def_type d]"
  by (simp add: init_events_def)

lemma emitted_teardown [simp]: "emitted (teardown_events ports r) = []"
  by (simp add: teardown_events_def split: option.splits)

lemma constructed_teardown [simp]: "constructed (teardown_events ports r) = []"
  by (simp add: teardown_events_def split: option.splits)

lemma emitted_teardowns [simp]: "emitted (concat (map (teardown_events ports) rs)) = []"
  by (induction rs) simp_all

lemma constructed_teardowns [simp]: "constructed (concat (map (teardown_events ports) rs)) = []"
  by (induction rs) simp_all

lemma count_list_distinct:
  "distinct xs \<Longrightarrow> count_list xs x = (if x \<in> set xs then 1 else 0)"
  by (induction xs) auto

lemma remove1_type_subset: "set (remove1_type t ds) \<subseteq> set ds"
  by (induction ds) auto

lemma diff_removed_subset: "set (diff_removed memo ds) \<subseteq> set memo"
proof (induction ds arbitrary: memo)
  case Nil
  then show ?case by simp
next
  case (Cons d ds)
  then show ?case using remove1_type_subset [of "def_type d" memo] by fastforce
qed

lemma diff_added_subset: "set (diff_added memo ds) \<subseteq> set ds"
  by (induction ds arbitrary: memo) auto

lemma diff_added_fresh:
  "t \<notin> def_type ` set memo \<Longrightarrow> d \<in> set ds \<Longrightarrow> def_type d = t \<Longrightarrow> d \<in> set (diff_added memo ds)"
proof (induction ds arbitrary: memo)
  case Nil
  then show ?case by simp
next
  case (Cons x ds)
  have sub: "t \<notin> def_type ` set (remove1_type (def_type x) memo)"
    using Cons.prems(1) remove1_type_subset [of "def_type x" memo] by blast
  show ?case
  proof (cases "d = x")
    case True
    then show ?thesis using Cons.prems by auto
  next
    case False
    then have "d \<in> set ds" using Cons.prems(2) by simp
    then show ?thesis
      using Cons.IH [OF Cons.prems(1) _ Cons.prems(3)] Cons.IH [OF sub _ Cons.prems(3)]
      by simp
  qed
qed

lemma Map_delete_subset: "set (Map_delete k m) \<subseteq> set m"
  by (induction m) (auto split: if_splits)

lemma keys_subset: "set m' \<subseteq> set m \<Longrightarrow> set (Map_keys m') \<subseteq> set (Map_keys m)"
  by (auto simp: Map_keys_def)

lemma Map_has_keys: "Map_has m k = (k \<in> set (Map_keys m))"
  by (simp add: Map_has_def Map_keys_def map_of_None_keys)

lemma filter_distinct_key:
  "distinct (map f xs) \<Longrightarrow> x \<in> set xs \<Longrightarrow> filter (\<lambda>y. f y = f x) xs = [x]"
proof (induction xs)
  case Nil
  then show ?case by simp
next
  case (Cons a xs)
  show ?case
  proof (cases "a = x")
    case True
    have "f x \<notin> f ` set xs" using Cons.prems(1) True by simp
    then have "\<forall>y \<in> set xs. f y \<noteq> f x" by (metis imageI)
    then have "filter (\<lambda>y. f y = f x) xs = []" by (simp add: filter_empty_conv)
    then show ?thesis using True by simp
  next
    case False
    then have "x \<in> set xs" using Cons.prems(2) by simp
    moreover have "f a \<noteq> f x" using Cons.prems(1) \<open>x \<in> set xs\<close> by auto
    ultimately show ?thesis using Cons by simp
  qed
qed

lemma set_keys_Map_set: "set (Map_keys (Map_set k v m)) = insert k (set (Map_keys m))"
  by (auto simp: Map_keys_def keys_Map_set)

lemma Map_has_Map_set: "Map_has (Map_set k v m) k' = (k' = k \<or> Map_has m k')"
  by (auto simp: Map_has_def map_of_Map_set)

text \<open>The removal phase when every stored teardown hook returns.\<close>

lemma remove_phase:
  assumes "\<forall>r \<in> snd ` set (dirRef s). teardown_ok r"
  shows "\<exists>s' es. forEachE destroyDirective ds s = (Inr (), s') \<and> trace s' = trace s @ es \<and>
           emitted es = [] \<and> constructed es = [] \<and> set (dirRef s') \<subseteq> set (dirRef s) \<and>
           reflectService s' = reflectService s"
  using assms
proof (induction ds arbitrary: s)
  case Nil
  have "forEachE destroyDirective [] s = (Inr (), s) \<and> trace s = trace s @ [] \<and>
           emitted [] = [] \<and> constructed [] = []" by simp
  then show ?case by blast
next
  case (Cons d ds)
  define es1 where "es1 = (case Map_get (dirRef s) (def_type d) of None \<Rightarrow> []
      | Some r \<Rightarrow> teardown_events (dirIo s) r)"
  define s1 where "s1 = (add_events es1 s)\<lparr>dirRef := Map_delete (def_type d) (dirRef s),
      dirIo := Map_delete (def_type d) (dirIo s)\<rparr>"
  have step: "destroyDirective d s = (Inr (), s1)"
  proof (cases "Map_get (dirRef s) (def_type d)")
    case None
    then show ?thesis
      by (simp add: destroyDirective_def bindE_def returnE_def s1_def es1_def)
  next
    case (Some r)
    then have "(def_type d, r) \<in> set (dirRef s)" by (simp add: Map_get_def map_of_SomeD)
    then have "teardown_ok r" using Cons.prems(1) by force
    then show ?thesis
      using Some destroyDirective_attached [of s d r]
      by (simp add: s1_def es1_def add_events_def)
  qed
  have e1: "emitted es1 = []" "constructed es1 = []"
    by (simp_all add: es1_def split: option.splits)
  have sub: "set (dirRef s1) \<subseteq> set (dirRef s)"
    by (simp add: s1_def Map_delete_subset)
  have ok1: "\<forall>r \<in> snd ` set (dirRef s1). teardown_ok r"
    using Cons.prems(1) sub by blast
  from Cons.IH [OF ok1] obtain s' es where
    r: "forEachE destroyDirective ds s1 = (Inr (), s')" "trace s' = trace s1 @ es"
       "emitted es = []" "constructed es = []" "set (dirRef s') \<subseteq> set (dirRef s1)"
       "reflectService s' = reflectService s1"
    by blast
  have "forEachE destroyDirective (d # ds) s = (Inr (), s') \<and> trace s' = trace s @ (es1 @ es) \<and>
           emitted (es1 @ es) = [] \<and> constructed (es1 @ es) = [] \<and>
           set (dirRef s') \<subseteq> set (dirRef s) \<and> reflectService s' = reflectService s"
    using step r e1 sub by (simp add: s1_def)
  then show ?case by blast
qed

text \<open>The addition phase when every added class constructs and has init hooks that
  return.\<close>

lemma add_phase:
  assumes "\<forall>d \<in> set items. constructible c s (def_type d) \<and> init_ok (def_type d)"
  shows "\<exists>rs s' es. forEachAddedItem c items cr s = (Inr (cr @ rs), s') \<and>
           trace s' = trace s @ es \<and> emitted es = [] \<and> constructed es = map dr_type rs \<and>
           distinct (map dr_type rs) \<and>
           set (map dr_type rs) = def_type ` set items - set (Map_keys (dirRef s)) \<and>
           (\<forall>k. Map_has (dirIo s) k \<longrightarrow> Map_has (dirIo s') k) \<and>
           (\<forall>r \<in> set rs. Map_has (dirIo s') (dr_type r))"
  using assms
proof (induction items arbitrary: cr s)
  case Nil
  have "forEachAddedItem c [] cr s = (Inr (cr @ []), s) \<and> trace s = trace s @ [] \<and>
      emitted [] = [] \<and> constructed [] = map dr_type [] \<and> distinct (map dr_type []) \<and>
      set (map dr_type []) = def_type ` set [] - set (Map_keys (dirRef s)) \<and>
      (\<forall>k. Map_has (dirIo s) k \<longrightarrow> Map_has (dirIo s) k) \<and>
      (\<forall>r \<in> set []. Map_has (dirIo s) (dr_type r))" by simp
  then show ?case by (intro exI)
next
  case (Cons d items)
  show ?case
  proof (cases "Map_has (dirRef s) (def_type d)")
    case True
    have ok: "\<forall>d \<in> set items. constructible c s (def_type d) \<and> init_ok (def_type d)"
      using Cons.prems(1) by simp
    from Cons.IH [OF ok, of cr] obtain rs s' es where
      r: "forEachAddedItem c items cr s = (Inr (cr @ rs), s')" "trace s' = trace s @ es"
         "emitted es = []" "constructed es = map dr_type rs" "distinct (map dr_type rs)"
         "set (map dr_type rs) = def_type ` set items - set (Map_keys (dirRef s))"
         "\<forall>k. Map_has (dirIo s) k \<longrightarrow> Map_has (dirIo s') k"
         "\<forall>r \<in> set rs. Map_has (dirIo s') (dr_type r)" by blast
    have mem: "def_type d \<in> set (Map_keys (dirRef s))"
      using True by (simp add: Map_has_keys)
    have g1: "forEachAddedItem c (d # items) cr s = (Inr (cr @ rs), s')"
      using True r(1) by (simp add: initDirective_present)
    have g6: "set (map dr_type rs) = def_type ` set (d # items) - set (Map_keys (dirRef s))"
      using r(6) mem by auto
    show ?thesis
      by (intro exI conjI) (rule g1, rule r(2), rule r(3), rule r(4), rule r(5), rule g6,
        rule r(7), rule r(8))
  next
    case False
    define rd where "rd = new_ref c (def_type d) (nextInst s)"
    define s1 where "s1 = attach c d s"
    have step: "initDirective c d s = (Inr (Some rd), s1)"
      using initDirective_fresh [OF False] Cons.prems(1) by (simp add: rd_def s1_def)
    have fr: "reflectService s1 = reflectService s" by (simp add: s1_def attach_def)
    have ok: "\<forall>d \<in> set items. constructible c s1 (def_type d) \<and> init_ok (def_type d)"
      using Cons.prems(1) constructible_frame [OF fr] by simp
    have nomem: "def_type d \<notin> set (Map_keys (dirRef s))"
      using False by (simp add: Map_has_keys)
    have keys1: "set (Map_keys (dirRef s1)) = insert (def_type d) (set (Map_keys (dirRef s)))"
      by (simp add: s1_def attach_def set_keys_Map_set)
    have io1: "Map_has (dirIo s1) k = (k = def_type d \<or> Map_has (dirIo s) k)" for k
      by (simp add: s1_def attach_def Map_has_Map_set)
    have tr1: "trace s1 = trace s @ init_events d (nextInst s) (nextIo s)"
      by (simp add: s1_def attach_def)
    from Cons.IH [OF ok, of "cr @ [rd]"] obtain rs s' es where
      r: "forEachAddedItem c items (cr @ [rd]) s1 = (Inr ((cr @ [rd]) @ rs), s')"
         "trace s' = trace s1 @ es"
         "emitted es = []" "constructed es = map dr_type rs" "distinct (map dr_type rs)"
         "set (map dr_type rs) = def_type ` set items - set (Map_keys (dirRef s1))"
         "\<forall>k. Map_has (dirIo s1) k \<longrightarrow> Map_has (dirIo s') k"
         "\<forall>r \<in> set rs. Map_has (dirIo s') (dr_type r)" by blast
    have ty: "dr_type rd = def_type d" by (simp add: rd_def)
    have g1: "forEachAddedItem c (d # items) cr s = (Inr (cr @ (rd # rs)), s')"
      using step r(1) by simp
    have g2: "trace s' = trace s @ (init_events d (nextInst s) (nextIo s) @ es)"
      using r(2) tr1 by simp
    have g3: "emitted (init_events d (nextInst s) (nextIo s) @ es) = []"
      using r(3) by simp
    have g4: "constructed (init_events d (nextInst s) (nextIo s) @ es) = map dr_type (rd # rs)"
      using r(4) by (simp add: rd_def)
    have "def_type d \<notin> set (map dr_type rs)" unfolding r(6) keys1 by simp
    then have g5: "distinct (map dr_type (rd # rs))"
      using r(5) ty by simp
    have g6: "set (map dr_type (rd # rs)) =
        def_type ` set (d # items) - set (Map_keys (dirRef s))"
      unfolding list.map set_simps r(6) keys1 ty image_insert using nomem by blast
    have g7: "\<forall>k. Map_has (dirIo s) k \<longrightarrow> Map_has (dirIo s') k"
      using r(7) io1 by simp
    have "Map_has (dirIo s') (def_type d)" using r(7) io1 by simp
    then have g8: "\<forall>r \<in> set (rd # rs). Map_has (dirIo s') (dr_type r)"
      using r(8) ty by simp
    show ?thesis
      by (intro exI conjI) (rule g1, rule g2, rule g3, rule g4, rule g5, rule g6,
        rule g7, rule g8)
  qed
qed

text \<open>What follows the teardown check of a tick whose list declares \<open>T\<close>, when
  \<open>T\<close> is neither attached nor in the memo.\<close>

lemma process_duplicates:
  assumes td: "\<forall>r \<in> snd ` set (dirRef s0). teardown_ok r"
    and fresh: "\<not> Map_has (dirRef s0) T" "T \<notin> def_type ` set (dirsDiffer s0)"
    and decl: "T \<in> def_type ` set ds"
    and ok: "\<forall>d \<in> set ds. constructible c s0 (def_type d) \<and> init_ok (def_type d)"
  shows "\<exists>ch s1 s' es rs r.
           differ_diff (Some ds) s0 = (Some ch, s1) \<and>
           processDirChanges c ch s1 = (Inr (), s') \<and> trace s' = trace s0 @ es \<and>
           emitted es = [rs] \<and> filter (\<lambda>x. dr_type x = T) rs = [r] \<and>
           count_list (constructed es) T = 1 \<and>
           Map_get (dirRef s') T = Some r \<and> Map_has (dirIo s') T"
proof -
  define ch where "ch = \<lparr>removedItems = diff_removed (dirsDiffer s0) ds,
                         addedItems = diff_added (dirsDiffer s0) ds\<rparr>"
  define s1 where "s1 = s0\<lparr>dirsDiffer := ds\<rparr>"
  obtain d where d: "d \<in> set ds" "def_type d = T" using decl by auto
  have dadd: "d \<in> set (addedItems ch)"
    using diff_added_fresh [OF fresh(2) d] by (simp add: ch_def)
  then have ne: "addedItems ch \<noteq> []" by auto
  have diff: "differ_diff (Some ds) s0 = (Some ch, s1)"
    using ne by (simp add: differ_diff_def Let_def ch_def s1_def)
  have td1: "\<forall>r \<in> snd ` set (dirRef s1). teardown_ok r" using td by (simp add: s1_def)
  from remove_phase [OF td1, of "removedItems ch"] obtain s2 es1 where
    r: "forEachE destroyDirective (removedItems ch) s1 = (Inr (), s2)" "trace s2 = trace s1 @ es1"
       "emitted es1 = []" "constructed es1 = []" "set (dirRef s2) \<subseteq> set (dirRef s1)"
       "reflectService s2 = reflectService s1"
    by blast
  have nokey: "T \<notin> set (Map_keys (dirRef s2))"
    using fresh(1) keys_subset [OF r(5)] by (auto simp: Map_has_keys s1_def)
  have fr: "reflectService s2 = reflectService s0" using r(6) by (simp add: s1_def)
  have ok2: "\<forall>d \<in> set (addedItems ch). constructible c s2 (def_type d) \<and> init_ok (def_type d)"
    using ok diff_added_subset [of "dirsDiffer s0" ds] constructible_frame [OF fr]
    by (auto simp: ch_def)
  from add_phase [OF ok2, of "[]"] obtain rs s3 es2 where
    a: "forEachAddedItem c (addedItems ch) [] s2 = (Inr ([] @ rs), s3)" "trace s3 = trace s2 @ es2"
       "emitted es2 = []" "constructed es2 = map dr_type rs" "distinct (map dr_type rs)"
       "set (map dr_type rs) = def_type ` set (addedItems ch) - set (Map_keys (dirRef s2))"
       "\<forall>r \<in> set rs. Map_has (dirIo s3) (dr_type r)"
    by blast
  have Tin: "T \<in> set (map dr_type rs)"
    using a(6) dadd d(2) nokey by auto
  then obtain r0 where r0: "r0 \<in> set rs" "dr_type r0 = T" by auto
  then have rsne: "rs \<noteq> []" by auto
  have f1: "filter (\<lambda>x. dr_type x = T) rs = [r0]"
    using filter_distinct_key [OF a(5) r0(1)] r0(2) by simp
  have c1: "count_list (map dr_type rs) T = 1"
    using count_list_distinct [OF a(5), of T] Tin by simp
  have stored: "Map_get (dirRef s3) T = Some r0"
    using forEachAddedItem_created [of c "addedItems ch" "[]" s2 rs s3] a(1) r0 by auto
  have port: "Map_has (dirIo s3) T" using a(7) r0 by auto
  define s' where "s' = record_event (EvEmit rs) s3"
  have run: "processDirChanges c ch s1 = (Inr (), s')"
    using r(1) a(1) rsne by (simp add: processDirChanges_def bindE_def s'_def)
  have tr: "trace s' = trace s0 @ (es1 @ es2 @ [EvEmit rs])"
    using r(2) a(2) by (simp add: s'_def record_event_def s1_def)
  have em: "emitted (es1 @ es2 @ [EvEmit rs]) = [rs]"
    using r(3) a(3) by simp
  have co: "count_list (constructed (es1 @ es2 @ [EvEmit rs])) T = 1"
    using r(4) a(4) c1 by simp
  have "dirRef s' = dirRef s3" "dirIo s' = dirIo s3" by (simp_all add: s'_def record_event_def)
  then have st: "Map_get (dirRef s') T = Some r0" "Map_has (dirIo s') T"
    using stored port by simp_all
  show ?thesis
    by (intro exI conjI) (rule diff, rule run, rule tr, rule em, rule f1, rule co,
      rule st(1), rule st(2))
qed

section \<open>Runs of operations\<close>

text \<open>Every operation that no init hook aborts keeps the store invariant, and so
  does a run without such an operation.\<close>

lemma perform_inv:
  assumes "store_inv s" and "\<not> aborted_by_init_hook (perform x s)"
  shows "store_inv (snd (perform x s))"
proof (cases x)
  case (Tick inp)
  have "\<forall>e. fst (ngDoCheck inp s) = Inl e \<longrightarrow> \<not> init_hook_error e"
    using assms(2) Tick by (auto simp: aborted_by_init_hook_def)
  then show ?thesis using ngDoCheck_inv [OF assms(1), of inp] Tick by simp
next
  case Shutdown
  then show ?thesis using destroyAllDirectives_inv [OF assms(1)] by (simp add: ngOnDestroy_def)
qed

lemma run_inv: "store_inv s \<Longrightarrow> \<not> init_aborts ops s \<Longrightarrow> store_inv (run ops s)"
proof (induction ops arbitrary: s)
  case Nil
  then show ?case by simp
next
  case (Cons x xs)
  have "store_inv (snd (perform x s))"
    using perform_inv [OF Cons.prems(1), of x] Cons.prems(2) by simp
  then show ?case using Cons.IH [of "snd (perform x s)"] Cons.prems(2) by simp
qed

lemma teardown_not_init: "\<not> init_hook_error (HookError ''ngOnDestroy'')"
  by (simp add: init_hook_error_def init_hook_order_def)

lemma destroyDirRef_error:
  "fst (destroyDirRef r s) = Inl e \<Longrightarrow> e = HookError ''ngOnDestroy''"
  by (simp add: destroyDirRef_result split: if_splits)

lemma forEach_destroyDirRef_error:
  "fst (forEachE destroyDirRef rs s) = Inl e \<Longrightarrow> e = HookError ''ngOnDestroy''"
proof (induction rs arbitrary: s)
  case Nil
  then show ?case by simp
next
  case (Cons r rs)
  show ?case
  proof (cases "destroyDirRef r s")
    case (Pair x s')
    show ?thesis
    proof (cases x)
      case (Inl e')
      then show ?thesis using Cons.prems Pair destroyDirRef_error [of r s e'] by simp
    next
      case (Inr u)
      then show ?thesis using Cons.prems Pair Cons.IH [of s'] by simp
    qed
  qed
qed

lemma destroyDirective_error:
  "fst (destroyDirective d s) = Inl e \<Longrightarrow> e = HookError ''ngOnDestroy''"
proof (cases "Map_get (dirRef s) (def_type d)")
  case None
  assume "fst (destroyDirective d s) = Inl e"
  then show ?thesis using None by (simp add: destroyDirective_def bindE_def returnE_def)
next
  case (Some r)
  assume a: "fst (destroyDirective d s) = Inl e"
  show ?thesis
  proof (cases "teardown_ok r")
    case True
    then show ?thesis using a Some by (simp add: destroyDirective_def bindE_def destroyDirRef_ok)
  next
    case False
    then show ?thesis using a Some by (simp add: destroyDirective_def bindE_def destroyDirRef_throw)
  qed
qed

lemma forEach_destroyDirective_error:
  "fst (forEachE destroyDirective ds s) = Inl e \<Longrightarrow> e = HookError ''ngOnDestroy''"
proof (induction ds arbitrary: s)
  case Nil
  then show ?case by simp
next
  case (Cons d ds)
  show ?case
  proof (cases "destroyDirective d s")
    case (Pair x s')
    show ?thesis
    proof (cases x)
      case (Inl e')
      then show ?thesis using Cons.prems Pair destroyDirective_error [of d s e'] by simp
    next
      case (Inr u)
      then show ?thesis using Cons.prems Pair Cons.IH [of s'] by simp
    qed
  qed
qed

lemma maybeDestroyDirectives_error:
  "fst (maybeDestroyDirectives inp s) = Inl e \<Longrightarrow> e = HookError ''ngOnDestroy''"
proof -
  assume a: "fst (maybeDestroyDirectives inp s) = Inl e"
  have "\<exists>ch. isCompChanged inp s = (ch, s\<lparr>lastCompInstance := compInstance inp\<rparr>)"
    by (auto simp: isCompChanged_def)
  then obtain ch where ic: "isCompChanged inp s = (ch, s\<lparr>lastCompInstance := compInstance inp\<rparr>)" ..
  let ?t = "s\<lparr>lastCompInstance := compInstance inp, dirsDiffer := []\<rparr>"
  have "fst (forEachE destroyDirRef (map snd (dirRef ?t)) ?t) = Inl e"
    using a
    by (auto simp: maybeDestroyDirectives_def ic bindE_def returnE_def differ_diff_empty
        destroyAllDirectives_def split: if_splits prod.splits sum.splits)
  then show ?thesis using forEach_destroyDirRef_error by blast
qed

lemma one_orphan_add_events [simp]: "one_orphan (add_events es s) = one_orphan s"
  by (simp add: one_orphan_def orphans_def)

lemma initDirective_init_abort:
  assumes "store_inv s" and "fst (initDirective c d s) = Inl e" and "init_hook_error e"
  shows "one_orphan (snd (initDirective c d s))"
proof (cases "Map_has (dirRef s) (def_type d)")
  case True
  then show ?thesis using assms(2) by (simp add: initDirective_present)
next
  case False
  show ?thesis
  proof (cases "constructible c s (def_type d)")
    case False
    then obtain e' where e': "fst (createDirective c (def_type d) s) = Inl e'"
      using createDirective_fail_iff [of c "def_type d" s] by blast
    then have "initDirective c d s = (Inl e', s)"
      using initDirective_fail [OF \<open>\<not> Map_has (dirRef s) (def_type d)\<close>] by simp
    then have "e = e'" using assms(2) by simp
    then show ?thesis
      using createDirective_error_kind [OF e'] assms(3) by (auto simp: init_hook_error_def)
  next
    case True
    define r where "r = new_ref c (def_type d) (nextInst s)"
    define s1 where "s1 = s\<lparr>nextInst := Suc (nextInst s),
        trace := trace s @ [EvConstruct (def_type d) (nextInst s)]\<rparr>"
    define s2 where "s2 = initDirIO c r d s1"
    obtain es where es: "snd (callInitHooks (dr_instance r) s2) = add_events es s2"
      using callInitHooks_state by blast
    have io: "dirIo s2 = Map_set (def_type d)
          \<lparr>io_id = nextIo s, io_componentRef = dirToCompDef c r, io_trackOutputChanges = True\<rparr>
          (dirIo s)" "dirRef s2 = dirRef s"
      by (simp_all add: s2_def s1_def initDirIO_state r_def)
    have unfold: "initDirective c d s =
      (case callInitHooks (dr_instance r) s2 of
         (Inl e, s3) \<Rightarrow> (Inl e, s3)
       | (Inr u, s3) \<Rightarrow> (Inr (Some r), s3\<lparr>dirRef := Map_set (def_type d) r (dirRef s3)\<rparr>))"
      using False True unfolding s2_def s1_def r_def new_ref_def
      by (simp add: initDirective_def createDirective_ok Let_def hostInjector_def
          split: prod.splits sum.splits)
    have nokey: "def_type d \<notin> set (Map_keys (dirRef s))"
      using False by (simp add: Map_has_keys)
    then have nokey': "def_type d \<notin> set (Map_keys (dirIo s))"
      using assms(1) by (simp add: store_inv_def)
    have keys2: "Map_keys (dirIo s2) = Map_keys (dirIo s) @ [def_type d]"
      using nokey' by (simp add: io Map_keys_def keys_Map_set)
    have "orphans s2 =
        filter (\<lambda>k. k \<notin> set (Map_keys (dirRef s))) (Map_keys (dirIo s) @ [def_type d])"
      unfolding orphans_def keys2 io(2) ..
    moreover have "filter (\<lambda>k. k \<notin> set (Map_keys (dirRef s))) (Map_keys (dirIo s)) = []"
      using assms(1) by (simp add: store_inv_def filter_empty_conv)
    ultimately have "orphans s2 = [def_type d]"
      using nokey by simp
    moreover have "set (Map_keys (dirRef s2)) \<subseteq> set (Map_keys (dirIo s2))"
      unfolding keys2 io(2) using assms(1) by (auto simp: store_inv_def)
    ultimately have o2: "one_orphan s2" by (simp add: one_orphan_def)
    show ?thesis
    proof (cases "callInitHooks (dr_instance r) s2")
      case (Pair x s3)
      with es have s3: "s3 = add_events es s2" by simp
      show ?thesis
      proof (cases x)
        case (Inl e')
        then show ?thesis using unfold Pair s3 o2 by simp
      next
        case (Inr u)
        then show ?thesis using unfold Pair assms(2) by simp
      qed
    qed
  qed
qed

lemma forEachAddedItem_init_abort:
  "store_inv s \<Longrightarrow> fst (forEachAddedItem c items cr s) = Inl e \<Longrightarrow> init_hook_error e \<Longrightarrow>
   one_orphan (snd (forEachAddedItem c items cr s))"
proof (induction items arbitrary: cr s)
  case Nil
  then show ?case by simp
next
  case (Cons d items)
  show ?case
  proof (cases "initDirective c d s")
    case (Pair x s')
    show ?thesis
    proof (cases x)
      case (Inl e')
      then have "e' = e" using Cons.prems(2) Pair by simp
      then show ?thesis
        using initDirective_init_abort [OF Cons.prems(1), of c d e] Cons.prems(3) Pair Inl by simp
    next
      case (Inr y)
      then have inv: "store_inv s'"
        using initDirective_inv [OF Cons.prems(1), of c d] Pair by simp
      show ?thesis
      proof (cases y)
        case None
        then show ?thesis
          using Pair Inr inv Cons.IH [of s' cr] Cons.prems(2,3) by simp
      next
        case (Some r)
        then show ?thesis
          using Pair Inr inv Cons.IH [of s' "cr @ [r]"] Cons.prems(2,3) by simp
      qed
    qed
  qed
qed

lemma processDirChanges_init_abort:
  assumes "store_inv s" and "fst (processDirChanges c ch s) = Inl e" and "init_hook_error e"
  shows "one_orphan (snd (processDirChanges c ch s))"
proof (cases "forEachE destroyDirective (removedItems ch) s")
  case (Pair x s1)
  then have inv1: "store_inv s1"
    using forEach_destroyDirective_inv [OF assms(1), of "removedItems ch"] by simp
  show ?thesis
  proof (cases x)
    case (Inl e')
    then have "e = e'" using Pair assms(2) by (simp add: processDirChanges_def bindE_def)
    moreover have "e' = HookError ''ngOnDestroy''"
      using forEach_destroyDirective_error [of "removedItems ch" s e'] Pair Inl by simp
    ultimately show ?thesis using assms(3) teardown_not_init by simp
  next
    case (Inr u)
    show ?thesis
    proof (cases "forEachAddedItem c (addedItems ch) [] s1")
      case (Pair y s2)
      have run: "processDirChanges c ch s =
        (case y of Inl e \<Rightarrow> (Inl e, s2)
         | Inr rs \<Rightarrow> (Inr (), if rs \<noteq> [] then record_event (EvEmit rs) s2 else s2))"
        using \<open>forEachE destroyDirective (removedItems ch) s = (x, s1)\<close> Inr Pair
        by (simp add: processDirChanges_def bindE_def split: sum.splits)
      show ?thesis
      proof (cases y)
        case (Inl e')
        then have "e' = e" using run assms(2) by simp
        then show ?thesis
          using forEachAddedItem_init_abort [OF inv1, of c "addedItems ch" "[]" e] Pair Inl run
            assms(3) by simp
      next
        case (Inr rs)
        then show ?thesis using run assms(2) by simp
      qed
    qed
  qed
qed

lemma ngDoCheck_init_abort:
  assumes "store_inv s" and "fst (ngDoCheck inp s) = Inl e" and "init_hook_error e"
  shows "one_orphan (snd (ngDoCheck inp s))"
proof (cases "maybeDestroyDirectives inp s")
  case (Pair x s1)
  then have inv1: "store_inv s1" using maybeDestroyDirectives_inv [OF assms(1), of inp] by simp
  show ?thesis
  proof (cases x)
    case (Inl e')
    then have "e = e'" using Pair assms(2) by (simp add: ngDoCheck_def)
    moreover have "e' = HookError ''ngOnDestroy''"
      using maybeDestroyDirectives_error [of inp s e'] Pair Inl by simp
    ultimately show ?thesis using assms(3) teardown_not_init by simp
  next
    case (Inr b)
    show ?thesis
    proof (cases "b \<or> (\<forall>c. componentRef inp \<noteq> Val c)")
      case True
      then have "ngDoCheck inp s = (Inr (), s1)"
        using Pair Inr by (cases b; cases "componentRef inp") (simp_all add: ngDoCheck_def)
      then show ?thesis using assms(2) by simp
    next
      case False
      then obtain c where c: "componentRef inp = Val c" and b: "\<not> b" by blast
      obtain chg where d: "differ_diff (directives inp) s1 = (chg, s1\<lparr>dirsDiffer := declared inp\<rparr>)"
        using differ_diff_state [of "directives inp" s1]
        by (cases "differ_diff (directives inp) s1") (simp add: declared_def)
      let ?s2 = "s1\<lparr>dirsDiffer := declared inp\<rparr>"
      have inv2: "store_inv ?s2" using inv1 by simp
      show ?thesis
      proof (cases chg)
        case None
        then have "ngDoCheck inp s = (Inr (), updateDirectives inp ?s2)"
          using Pair Inr b c d by (simp add: ngDoCheck_def)
        then show ?thesis using assms(2) by simp
      next
        case (Some ch)
        then have run: "ngDoCheck inp s = processDirChanges c ch ?s2"
          using Pair Inr b c d by (simp add: ngDoCheck_def)
        then show ?thesis
          using processDirChanges_init_abort [OF inv2, of c ch e] assms(2,3) by simp
      qed
    qed
  qed
qed

text \<open>Two ticks from a new engine that fail: in an init hook, and in the resolution
  of a dependency. A shutdown throws nothing but what a teardown hook throws.\<close>

lemma tick_H_state:
  "ngDoCheck (tickOn exHost [defOf tyH]) (newEngine noReflect) =
     (Inl (HookError ''ngOnInit''),
      \<lparr>lastCompInstance = Val 1, dirRef = [], dirIo = [(tyH, new_io exHost tyH 0 0)],
       dirsDiffer = [defOf tyH], reflectService = noReflect,
       trace = [EvConstruct tyH 0, EvIoCreate 0 0, EvIoUpdate 0 None None, EvHook 0 ''ngOnInit''],
       nextInst = 1, nextIo = 1\<rparr>)"
  by (simp add: engine_defs example_defs tyH_def new_io_def)

lemma tick_D_state:
  "ngDoCheck (tickOn exHost [defOf tyD]) (newEngine noReflect) =
     (Inl (ResolutionError ''MissingService''),
      \<lparr>lastCompInstance = Val 1, dirRef = [], dirIo = [],
       dirsDiffer = [defOf tyD], reflectService = noReflect,
       trace = [], nextInst = 0, nextIo = 0\<rparr>)"
  by (simp add: engine_defs example_defs tyD_def)

lemma ngOnDestroy_error:
  "fst (ngOnDestroy s) = Inl e \<Longrightarrow> e = HookError ''ngOnDestroy''"
proof -
  assume a: "fst (ngOnDestroy s) = Inl e"
  have "fst (forEachE destroyDirRef (map snd (dirRef s)) s) = Inl e"
    using a
    by (auto simp: ngOnDestroy_def destroyAllDirectives_def bindE_def
        split: prod.splits sum.splits)
  then show ?thesis using forEach_destroyDirRef_error by blast
qed

lemma shutdown_not_aborted: "\<not> aborted_by_init_hook (ngOnDestroy s)"
  using ngOnDestroy_error [of s] teardown_not_init
  by (auto simp: aborted_by_init_hook_def split: sum.splits)

section \<open>The claims\<close>

text \<open>  C1, as amended. A tick on a stable host whose differ memo is \<open>[A, B]\<close> and whose declared list is
  \<open>[B, C]\<close>, the three types distinct, \<open>A\<close> attached with a teardown hook that
  returns and \<open>C\<close> not attached, constructible and with init hooks that return. The
  tick returns normally. It tears down the record of \<open>A\<close> (its port first, then its
  instance) and deletes \<open>A\<close> from both maps, creates one record and one port for
  \<open>C\<close> with a fresh instance, and emits one notification that lists the record of
  \<open>C\<close> alone. The trace holds no other event, and what both maps hold for \<open>B\<close> is
  what they held before: \<open>B\<close> is neither destroyed nor created again.\<close>

theorem C1_diff_minimality:
  assumes types: "def_type dA = A" "def_type dB = B" "def_type dB' = B" "def_type dC = C"
    and diff: "A \<noteq> B" "A \<noteq> C" "B \<noteq> C"
    and memo: "dirsDiffer s = [dA, dB]"
    and host: "componentRef inp = Val c" "lastCompInstance s = Val (cr_instance c)"
    and decl: "directives inp = Some [dB', dC]"
    and recA: "Map_get (dirRef s) A = Some rA" "dr_type rA = A" "Map_get (dirIo s) A = Some ioA"
    and freshC: "\<not> Map_has (dirRef s) C"
    and ok: "teardown_ok rA" "constructible c s C" "init_ok C"
  shows "ngDoCheck inp s =
     (Inr (),
      s\<lparr>dirsDiffer := [dB', dC],
        dirRef := Map_delete A (dirRef s) @ [(C, new_ref c C (nextInst s))],
        dirIo := Map_set C (new_io c C (nextInst s) (nextIo s)) (Map_delete A (dirIo s)),
        nextInst := Suc (nextInst s), nextIo := Suc (nextIo s),
        trace := trace s @
          EvIoDestroy (io_id ioA) #
          (if exposes (dr_instance rA) ''ngOnDestroy''
           then [EvHook (inst_id (dr_instance rA)) ''ngOnDestroy''] else []) @
          init_events dC (nextInst s) (nextIo s) @
          [EvEmit [new_ref c C (nextInst s)]]\<rparr>) \<and>
   Map_get (Map_delete A (dirRef s) @ [(C, new_ref c C (nextInst s))]) B = Map_get (dirRef s) B \<and>
   Map_get (Map_set C (new_io c C (nextInst s) (nextIo s)) (Map_delete A (dirIo s))) B =
     Map_get (dirIo s) B"
proof -
  let ?s1 = "s\<lparr>dirsDiffer := [dB', dC]\<rparr>"
  have d: "differ_diff (directives inp) s =
             (Some \<lparr>removedItems = [dA], addedItems = [dC]\<rparr>, ?s1)"
    using types diff memo decl by (simp add: differ_diff_def Let_def)
  let ?s2 = "?s1\<lparr>dirRef := Map_delete A (dirRef s), dirIo := Map_delete A (dirIo s),
                 trace := trace s @ teardown_events (dirIo s) rA\<rparr>"
  have rm: "destroyDirective dA ?s1 = (Inr (), ?s2)"
    using destroyDirective_attached [of ?s1 dA rA] recA ok(1) types by simp
  have noC: "map_of (Map_delete A (dirRef s)) C = None"
    using freshC diff by (simp add: map_of_Map_delete Map_has_def)
  have fresh: "\<not> Map_has (dirRef ?s2) (def_type dC)"
    using noC types by (simp add: Map_has_def)
  have cons: "constructible c ?s2 (def_type dC)"
    using ok(2) types constructible_frame [of ?s2 s c C] by simp
  have add: "initDirective c dC ?s2 =
      (Inr (Some (new_ref c C (nextInst s))), attach c dC ?s2)"
    using initDirective_fresh [OF fresh cons] ok(3) types by simp
  have td: "teardown_events (dirIo s) rA =
      EvIoDestroy (io_id ioA) #
          (if exposes (dr_instance rA) ''ngOnDestroy''
           then [EvHook (inst_id (dr_instance rA)) ''ngOnDestroy''] else [])"
    using recA by (simp add: teardown_events_def Map_get_def)
  have run: "ngDoCheck inp s =
     (Inr (), record_event (EvEmit [new_ref c C (nextInst s)]) (attach c dC ?s2))"
    using host
    by (simp add: ngDoCheck_def maybeDestroy_stable [OF host] d processDirChanges_def bindE_def
        rm add)
  have st: "record_event (EvEmit [new_ref c C (nextInst s)]) (attach c dC ?s2) =
      s\<lparr>dirsDiffer := [dB', dC],
        dirRef := Map_delete A (dirRef s) @ [(C, new_ref c C (nextInst s))],
        dirIo := Map_set C (new_io c C (nextInst s) (nextIo s)) (Map_delete A (dirIo s)),
        nextInst := Suc (nextInst s), nextIo := Suc (nextIo s),
        trace := trace s @
          EvIoDestroy (io_id ioA) #
          (if exposes (dr_instance rA) ''ngOnDestroy''
           then [EvHook (inst_id (dr_instance rA)) ''ngOnDestroy''] else []) @
          init_events dC (nextInst s) (nextIo s) @
          [EvEmit [new_ref c C (nextInst s)]]\<rparr>"
    using types td by (simp add: attach_def record_event_def Map_set_fresh [OF noC])
  have b1: "Map_get (Map_delete A (dirRef s) @ [(C, new_ref c C (nextInst s))]) B = Map_get (dirRef s) B"
    using diff by (simp add: Map_get_def map_of_Map_delete map_add_def split: option.splits)
  have b2: "Map_get (Map_set C (new_io c C (nextInst s) (nextIo s)) (Map_delete A (dirIo s))) B =
     Map_get (dirIo s) B"
    using diff by (simp add: Map_get_def map_of_Map_delete map_of_Map_set)
  show ?thesis using run st b1 b2 by simp
qed

theorem C1_diff_minimality_witness:
  "fst (ngDoCheck (tickOn exHost [defOf tyB, defOf tyC])
         (snd (ngDoCheck (tickOn exHost [defOf tyA, defOf tyB]) (newEngine noReflect)))) = Inr () \<and>
   dirRef (snd (ngDoCheck (tickOn exHost [defOf tyB, defOf tyC])
         (snd (ngDoCheck (tickOn exHost [defOf tyA, defOf tyB]) (newEngine noReflect))))) =
     [(tyB, new_ref exHost tyB 1), (tyC, new_ref exHost tyC 2)] \<and>
   trace (snd (ngDoCheck (tickOn exHost [defOf tyB, defOf tyC])
         (snd (ngDoCheck (tickOn exHost [defOf tyA, defOf tyB]) (newEngine noReflect))))) =
     trace (snd (ngDoCheck (tickOn exHost [defOf tyA, defOf tyB]) (newEngine noReflect))) @
       [EvIoDestroy 0, EvHook 0 ''ngOnDestroy'', EvConstruct tyC 2, EvIoCreate 2 2,
        EvIoUpdate 2 None None, EvEmit [new_ref exHost tyC 2]]"
proof -
  define S where "S = snd (ngDoCheck (tickOn exHost [defOf tyA, defOf tyB]) (newEngine noReflect))"
  define I where "I = tickOn exHost [defOf tyB, defOf tyC]"
  have s: "S = \<lparr>lastCompInstance = Val 1,
      dirRef = [(tyA, new_ref exHost tyA 0), (tyB, new_ref exHost tyB 1)],
      dirIo = [(tyA, new_io exHost tyA 0 0), (tyB, new_io exHost tyB 1 1)],
      dirsDiffer = [defOf tyA, defOf tyB], reflectService = noReflect,
      trace = [EvConstruct tyA 0, EvIoCreate 0 0, EvIoUpdate 0 None None, EvHook 0 ''ngOnInit'',
               EvHook 0 ''ngAfterViewInit'', EvConstruct tyB 1, EvIoCreate 1 1, EvIoUpdate 1 None None,
               EvHook 1 ''ngDoCheck'', EvEmit [new_ref exHost tyA 0, new_ref exHost tyB 1]],
      nextInst = 2, nextIo = 2\<rparr>"
    unfolding S_def by (simp add: engine_defs example_defs new_ref_def new_io_def)
  have h: "componentRef I = Val exHost" "directives I = Some [defOf tyB, defOf tyC]"
    by (simp_all add: componentRef_def directives_def tickOn_def I_def)
  have t: "def_type (defOf tyA) = tyA" "def_type (defOf tyB) = tyB" "def_type (defOf tyC) = tyC"
    by (simp_all add: defOf_def dynamicDirectiveDef_def)
  have "cr_instance exHost = 1" by (simp add: exHost_def)
  then have l: "lastCompInstance S = Val (cr_instance exHost)" by (simp add: s)
  have r: "Map_get (dirRef S) tyA = Some (new_ref exHost tyA 0)"
    "Map_get (dirIo S) tyA = Some (new_io exHost tyA 0 0)"
    "\<not> Map_has (dirRef S) tyC" "dirsDiffer S = [defOf tyA, defOf tyB]"
    using types_distinct by (simp_all add: s Map_get_def Map_has_def)
  have k: "dr_type (new_ref exHost tyA 0) = tyA" "teardown_ok (new_ref exHost tyA 0)"
    "exposes (dr_instance (new_ref exHost tyA 0)) ''ngOnDestroy''"
    "inst_id (dr_instance (new_ref exHost tyA 0)) = 0" "io_id (new_io exHost tyA 0 0) = 0"
    by (simp_all add: new_ref_def new_io_def teardown_ok_def hook_throws_def exposes_def tyA_def)
  have e: "init_events (defOf tyC) 2 2 = [EvConstruct tyC 2, EvIoCreate 2 2, EvIoUpdate 2 None None]"
    by (simp add: init_events_def t defOf_def dynamicDirectiveDef_def exposes_def tyC_def)
  have f: "nextInst S = 2" "nextIo S = 2"
    "Map_delete tyA (dirRef S) = [(tyB, new_ref exHost tyB 1)]"
    using types_distinct by (simp_all add: s)
  note c1 = C1_diff_minimality [OF t(1) t(2) t(2) t(3) types_distinct r(4) h(1) l h(2)
      r(1) k(1) r(2) r(3) k(2) constructible_examples(3) init_ok_examples(3)]
  have "fst (ngDoCheck I S) = Inr () \<and>
    dirRef (snd (ngDoCheck I S)) = [(tyB, new_ref exHost tyB 1), (tyC, new_ref exHost tyC 2)] \<and>
    trace (snd (ngDoCheck I S)) = trace S @
       [EvIoDestroy 0, EvHook 0 ''ngOnDestroy'', EvConstruct tyC 2, EvIoCreate 2 2,
        EvIoUpdate 2 None None, EvEmit [new_ref exHost tyC 2]]"
    using c1 by (simp add: k e f)
  then show ?thesis unfolding S_def I_def .
qed

text \<open>  The claim as stated fails when a hook throws or a construction fails, since the
  engine catches nothing. After the tick that declared \<open>[X, B]\<close>, the tick that
  declares \<open>[B, C]\<close> throws in the teardown hook of \<open>X\<close>: \<open>X\<close> stays in both maps
  and \<open>C\<close> is not constructed. After the tick that declared \<open>[A, B]\<close>, the tick that
  declares \<open>[B, D]\<close>, a dependency of \<open>D\<close> missing, tears \<open>A\<close> down and throws, and
  no record exists for \<open>D\<close>; and the tick that declares \<open>[B, H]\<close>, \<open>ngOnInit\<close> of
  \<open>H\<close> throwing, throws and no record exists for \<open>H\<close>.\<close>

theorem C1_counterexample:
  "fst (ngDoCheck (tickOn exHost [defOf tyB, defOf tyC])
         (snd (ngDoCheck (tickOn exHost [defOf tyX, defOf tyB]) (newEngine noReflect)))) =
     Inl (HookError ''ngOnDestroy'') \<and>
   Map_keys (dirRef (snd (ngDoCheck (tickOn exHost [defOf tyB, defOf tyC])
         (snd (ngDoCheck (tickOn exHost [defOf tyX, defOf tyB]) (newEngine noReflect)))))) =
     [tyX, tyB] \<and>
   Map_keys (dirIo (snd (ngDoCheck (tickOn exHost [defOf tyB, defOf tyC])
         (snd (ngDoCheck (tickOn exHost [defOf tyX, defOf tyB]) (newEngine noReflect)))))) =
     [tyX, tyB] \<and>
   trace (snd (ngDoCheck (tickOn exHost [defOf tyB, defOf tyC])
         (snd (ngDoCheck (tickOn exHost [defOf tyX, defOf tyB]) (newEngine noReflect))))) =
     trace (snd (ngDoCheck (tickOn exHost [defOf tyX, defOf tyB]) (newEngine noReflect))) @
       [EvIoDestroy 0, EvHook 0 ''ngOnDestroy''] \<and>
   fst (ngDoCheck (tickOn exHost [defOf tyB, defOf tyD])
         (snd (ngDoCheck (tickOn exHost [defOf tyA, defOf tyB]) (newEngine noReflect)))) =
     Inl (ResolutionError ''MissingService'') \<and>
   Map_keys (dirRef (snd (ngDoCheck (tickOn exHost [defOf tyB, defOf tyD])
         (snd (ngDoCheck (tickOn exHost [defOf tyA, defOf tyB]) (newEngine noReflect)))))) =
     [tyB] \<and>
   trace (snd (ngDoCheck (tickOn exHost [defOf tyB, defOf tyD])
         (snd (ngDoCheck (tickOn exHost [defOf tyA, defOf tyB]) (newEngine noReflect))))) =
     trace (snd (ngDoCheck (tickOn exHost [defOf tyA, defOf tyB]) (newEngine noReflect))) @
       [EvIoDestroy 0, EvHook 0 ''ngOnDestroy''] \<and>
   fst (ngDoCheck (tickOn exHost [defOf tyB, defOf tyH])
         (snd (ngDoCheck (tickOn exHost [defOf tyA, defOf tyB]) (newEngine noReflect)))) =
     Inl (HookError ''ngOnInit'') \<and>
   Map_keys (dirRef (snd (ngDoCheck (tickOn exHost [defOf tyB, defOf tyH])
         (snd (ngDoCheck (tickOn exHost [defOf tyA, defOf tyB]) (newEngine noReflect)))))) =
     [tyB]"
  by (simp add: engine_defs example_defs tyD_def tyH_def)

text \<open>  C2, as amended. In a run of ticks and shutdowns from a new engine in which no
  operation was aborted by an init hook that throws, the two maps have the same
  keys, each once, after the run; the same holds for a run from any state whose
  maps have the same keys, each once. A type that has a record is never attached
  again: \<open>initDirective\<close> returns nothing and changes nothing. A tick that an init
  hook aborts, from a state whose maps have the same keys, leaves exactly one key in
  the port map that the record map lacks, and no key the other way.\<close>

theorem C2_store_invariant:
  "(\<not> init_aborts ops (newEngine reflect) \<longrightarrow> store_inv (run ops (newEngine reflect))) \<and>
   (store_inv s \<and> \<not> init_aborts ops s \<longrightarrow> store_inv (run ops s)) \<and>
   (Map_has (dirRef s) (def_type d) \<longrightarrow> initDirective c d s = (Inr None, s)) \<and>
   (store_inv s \<and> aborted_by_init_hook (ngDoCheck inp s) \<longrightarrow>
      length (orphans (snd (ngDoCheck inp s))) = 1 \<and>
      set (Map_keys (dirRef (snd (ngDoCheck inp s)))) \<subseteq>
        set (Map_keys (dirIo (snd (ngDoCheck inp s)))))"
proof -
  have a: "store_inv (run ops (newEngine reflect))" if "\<not> init_aborts ops (newEngine reflect)"
    using run_inv [OF store_inv_new that] .
  have b: "one_orphan (snd (ngDoCheck inp s))"
    if h: "store_inv s" "aborted_by_init_hook (ngDoCheck inp s)"
  proof -
    obtain e where "fst (ngDoCheck inp s) = Inl e" "init_hook_error e"
      using h(2) by (auto simp: aborted_by_init_hook_def split: sum.splits)
    then show ?thesis using ngDoCheck_init_abort [OF h(1)] by blast
  qed
  show ?thesis
    using a b run_inv [of s ops] initDirective_present [of s d c]
    by (auto simp: one_orphan_def)
qed

theorem C2_store_invariant_witness:
  "store_inv (run [Tick (tickOn exHost [defOf tyA, defOf tyB]),
                   Tick (tickOn exHost [defOf tyB, defOf tyC]), Shutdown] (newEngine noReflect)) \<and>
   initDirective exHost (defOf tyA)
     (snd (ngDoCheck (tickOn exHost [defOf tyA, defOf tyB]) (newEngine noReflect))) =
     (Inr None, snd (ngDoCheck (tickOn exHost [defOf tyA, defOf tyB]) (newEngine noReflect))) \<and>
   length (orphans (snd (ngDoCheck (tickOn exHost [defOf tyH]) (newEngine noReflect)))) = 1 \<and>
   set (Map_keys (dirRef (snd (ngDoCheck (tickOn exHost [defOf tyH]) (newEngine noReflect))))) \<subseteq>
     set (Map_keys (dirIo (snd (ngDoCheck (tickOn exHost [defOf tyH]) (newEngine noReflect)))))"
proof -
  define S where "S = snd (ngDoCheck (tickOn exHost [defOf tyA, defOf tyB]) (newEngine noReflect))"
  define I where "I = tickOn exHost [defOf tyB, defOf tyC]"
  define ops where "ops = [Tick (tickOn exHost [defOf tyA, defOf tyB]), Tick I, Shutdown]"
  define J where "J = tickOn exHost [defOf tyH]"
  have t1: "fst (ngDoCheck (tickOn exHost [defOf tyA, defOf tyB]) (newEngine noReflect)) = Inr ()"
    by (simp add: engine_defs example_defs)
  have t2: "fst (ngDoCheck I S) = Inr ()"
    using second_tick_BC_ok by (simp add: S_def I_def)
  have na: "\<not> init_aborts ops (newEngine noReflect)"
    using t1 t2 shutdown_not_aborted
    by (simp add: ops_def aborted_by_init_hook_def S_def [symmetric])
  have has: "Map_has (dirRef S) (def_type (defOf tyA))"
    unfolding S_def by (simp add: first_tick_AB Map_has_def)
  have ab: "aborted_by_init_hook (ngDoCheck J (newEngine noReflect))"
    unfolding J_def
    by (simp add: tick_H_state aborted_by_init_hook_def init_hook_error_def init_hook_order_def)
  have "store_inv (run ops (newEngine noReflect)) \<and>
      initDirective exHost (defOf tyA) S = (Inr None, S) \<and>
      length (orphans (snd (ngDoCheck J (newEngine noReflect)))) = 1 \<and>
      set (Map_keys (dirRef (snd (ngDoCheck J (newEngine noReflect))))) \<subseteq>
        set (Map_keys (dirIo (snd (ngDoCheck J (newEngine noReflect)))))"
    using C2_store_invariant [of ops noReflect S "defOf tyA" exHost J]
      C2_store_invariant [of ops noReflect "newEngine noReflect" "defOf tyA" exHost J]
      na has ab store_inv_new [of noReflect]
    by simp
  then show ?thesis unfolding S_def I_def J_def ops_def .
qed

text \<open>  The claim as stated (the key sets are equal after every tick) fails when an init
  hook throws: \<open>initDirIO\<close> has stored the port before \<open>callInitHooks\<close> runs, and
  the record is stored only after it. With \<open>H\<close>, whose \<open>ngOnInit\<close> throws, the tick
  throws and leaves the port map with the key \<open>H\<close> and the record map empty. The
  next tick on the same list returns normally and the maps still differ.\<close>

theorem C2_counterexample:
  "fst (ngDoCheck (tickOn exHost [defOf tyH]) (newEngine noReflect)) = Inl (HookError ''ngOnInit'') \<and>
   Map_keys (dirRef (snd (ngDoCheck (tickOn exHost [defOf tyH]) (newEngine noReflect)))) = [] \<and>
   Map_keys (dirIo (snd (ngDoCheck (tickOn exHost [defOf tyH]) (newEngine noReflect)))) = [tyH] \<and>
   fst (ngDoCheck (tickOn exHost [defOf tyH])
         (snd (ngDoCheck (tickOn exHost [defOf tyH]) (newEngine noReflect)))) = Inr () \<and>
   Map_keys (dirRef (snd (ngDoCheck (tickOn exHost [defOf tyH])
         (snd (ngDoCheck (tickOn exHost [defOf tyH]) (newEngine noReflect)))))) = [] \<and>
   Map_keys (dirIo (snd (ngDoCheck (tickOn exHost [defOf tyH])
         (snd (ngDoCheck (tickOn exHost [defOf tyH]) (newEngine noReflect)))))) = [tyH]"
  by (simp add: engine_defs example_defs tyH_def)

text \<open>  C3. A tick that reaches the addition of an entry \<open>d\<close> whose type has no record
  and whose construction fails: the teardown check let the tick continue, the
  differ reported changes, the removals and the additions before \<open>d\<close> completed,
  with the records \<open>created\<close>. Then the tick throws the construction error, a
  resolution error or the constructor's; the state is the one in which the creation
  of \<open>d\<close> started, so that the attempt stored no record and no port and called no
  hook; and every record created earlier in the tick is in the record map.\<close>

theorem C3_construction_failure:
  assumes "maybeDestroyDirectives inp s = (Inr False, s0)" and "componentRef inp = Val c"
    and "differ_diff (directives inp) s0 = (Some ch, s1)"
    and "forEachE destroyDirective (removedItems ch) s1 = (Inr (), s2)"
    and "addedItems ch = pre @ d # post"
    and "forEachAddedItem c pre [] s2 = (Inr created, s3)"
    and "\<not> Map_has (dirRef s3) (def_type d)"
    and "fst (createDirective c (def_type d) s3) = Inl e"
  shows "ngDoCheck inp s = (Inl e, s3) \<and>
         initDirective c d s3 = (Inl e, s3) \<and>
         ((\<exists>dep. e = ResolutionError dep) \<or> e = ConstructorError (type_name (def_type d))) \<and>
         Map_get (dirRef s3) (def_type d) = None \<and>
         (\<forall>r \<in> set created. Map_get (dirRef s3) (dr_type r) = Some r)"
proof -
  have i: "initDirective c d s3 = (Inl e, s3)"
    using initDirective_fail [OF assms(7,8)] .
  have add: "forEachAddedItem c (pre @ d # post) [] s2 = (Inl e, s3)"
    using assms(6) i by (simp add: forEachAddedItem_append)
  have run: "ngDoCheck inp s = (Inl e, s3)"
    using assms(1-5) add by (simp add: ngDoCheck_def processDirChanges_def bindE_def)
  have none: "Map_get (dirRef s3) (def_type d) = None"
    using assms(7) by (simp add: Map_has_def Map_get_def)
  have kept: "\<forall>r \<in> set created. Map_get (dirRef s3) (dr_type r) = Some r"
    using forEachAddedItem_created [OF assms(6)] by simp
  show ?thesis using run i none kept createDirective_error_kind [OF assms(8)] by simp
qed

theorem C3_construction_failure_witness:
  "ngDoCheck (tickOn exHost [defOf tyA, defOf tyD, defOf tyB]) (newEngine noReflect) =
     (Inl (ResolutionError ''MissingService''),
      (newEngine noReflect)
        \<lparr>lastCompInstance := Val 1, dirsDiffer := [defOf tyA, defOf tyD, defOf tyB],
         dirRef := [(tyA, new_ref exHost tyA 0)], dirIo := [(tyA, new_io exHost tyA 0 0)],
         nextInst := 1, nextIo := 1,
         trace := [EvConstruct tyA 0, EvIoCreate 0 0, EvIoUpdate 0 None None,
                   EvHook 0 ''ngOnInit'', EvHook 0 ''ngAfterViewInit'']\<rparr>)"
proof -
  define I where "I = tickOn exHost [defOf tyA, defOf tyD, defOf tyB]"
  define s0 where "s0 = (newEngine noReflect)\<lparr>lastCompInstance := Val 1\<rparr>"
  define s1 where "s1 = s0\<lparr>dirsDiffer := [defOf tyA, defOf tyD, defOf tyB]\<rparr>"
  define s3 where "s3 = (newEngine noReflect)
        \<lparr>lastCompInstance := Val 1, dirsDiffer := [defOf tyA, defOf tyD, defOf tyB],
         dirRef := [(tyA, new_ref exHost tyA 0)], dirIo := [(tyA, new_io exHost tyA 0 0)],
         nextInst := 1, nextIo := 1,
         trace := [EvConstruct tyA 0, EvIoCreate 0 0, EvIoUpdate 0 None None,
                   EvHook 0 ''ngOnInit'', EvHook 0 ''ngAfterViewInit'']\<rparr>"
  have a1: "maybeDestroyDirectives I (newEngine noReflect) = (Inr False, s0)"
    unfolding I_def s0_def by (simp add: engine_defs example_defs)
  have a2: "componentRef I = Val exHost" by (simp add: I_def)
  have a3: "differ_diff (directives I) s0 =
      (Some \<lparr>removedItems = [], addedItems = [defOf tyA] @ defOf tyD # [defOf tyB]\<rparr>, s1)"
    unfolding I_def s0_def s1_def by (simp add: differ_diff_def newEngine_def Let_def)
  have a4: "forEachE destroyDirective
      (removedItems \<lparr>removedItems = [], addedItems = [defOf tyA] @ defOf tyD # [defOf tyB]\<rparr>) s1 =
      (Inr (), s1)" by simp
  have a5: "addedItems \<lparr>removedItems = [], addedItems = [defOf tyA] @ defOf tyD # [defOf tyB]\<rparr> =
      [defOf tyA] @ defOf tyD # [defOf tyB]" by simp
  have a6: "forEachAddedItem exHost [defOf tyA] [] s1 = (Inr [new_ref exHost tyA 0], s3)"
    unfolding s1_def s0_def s3_def
    by (simp add: engine_defs example_defs new_ref_def new_io_def)
  have a7: "\<not> Map_has (dirRef s3) (def_type (defOf tyD))"
    by (simp add: s3_def Map_has_def tyA_def tyD_def)
  have a8: "fst (createDirective exHost (def_type (defOf tyD)) s3) =
      Inl (ResolutionError ''MissingService'')"
    by (simp add: createDirective_def resolveDirParamTypes_def extractNgParamTypes_def resolves_def
        hostInjector_def tyD_def exHost_def)
  have "ngDoCheck I (newEngine noReflect) = (Inl (ResolutionError ''MissingService''), s3)"
    using C3_construction_failure [OF a1 a2 a3 a4 a5 a6 a7 a8] by simp
  then show ?thesis unfolding I_def s3_def .
qed

text \<open>  C4, as amended. A tick with a host whose declared list contains the type \<open>T\<close> at
  least twice and on which \<open>T\<close> is not attached yet: the host is not the one of the
  previous tick (everything is torn down first), or \<open>T\<close> has no record and is not
  in the differ memo. The teardown hooks of the stored records return, and the
  declared classes construct with init hooks that return. Then the tick returns
  normally, it constructs \<open>T\<close> exactly once, and it emits exactly one notification,
  which lists exactly one record of type \<open>T\<close>; that record is the one the record map
  holds for \<open>T\<close> after the tick, and the port map holds a port for \<open>T\<close>.\<close>

theorem C4_idempotent_duplicate:
  assumes host: "componentRef inp = Val c" and decl: "directives inp = Some ds"
    and twice: "2 \<le> count_list (map def_type ds) T"
    and new: "lastCompInstance s = Val (cr_instance c) \<longrightarrow>
              \<not> Map_has (dirRef s) T \<and> T \<notin> def_type ` set (dirsDiffer s)"
    and td: "\<forall>r \<in> snd ` set (dirRef s). teardown_ok r"
    and ok: "\<forall>d \<in> set ds. constructible c s (def_type d) \<and> init_ok (def_type d)"
  shows "fst (ngDoCheck inp s) = Inr () \<and>
         (\<exists>es rs r. trace (snd (ngDoCheck inp s)) = trace s @ es \<and>
                  count_list (constructed es) T = 1 \<and>
                  emitted es = [rs] \<and> filter (\<lambda>x. dr_type x = T) rs = [r] \<and>
                  Map_get (dirRef (snd (ngDoCheck inp s))) T = Some r \<and>
                  Map_has (dirIo (snd (ngDoCheck inp s))) T)"
proof -
  have Tin: "T \<in> def_type ` set ds"
  proof (rule ccontr)
    assume "T \<notin> def_type ` set ds"
    then have "count_list (map def_type ds) T = 0" by (simp add: count_list_0_iff)
    then show False using twice by simp
  qed
  show ?thesis
  proof (cases "lastCompInstance s = Val (cr_instance c)")
    case True
    have m: "maybeDestroyDirectives inp s = (Inr False, s)"
      using maybeDestroy_stable [OF host True] .
    from process_duplicates [OF td _ _ Tin ok] new True obtain ch s1 s' es rs r where
      p: "differ_diff (Some ds) s = (Some ch, s1)"
         "processDirChanges c ch s1 = (Inr (), s')" "trace s' = trace s @ es"
         "emitted es = [rs]" "filter (\<lambda>x. dr_type x = T) rs = [r]"
         "count_list (constructed es) T = 1"
         "Map_get (dirRef s') T = Some r" "Map_has (dirIo s') T"
      by blast
    have run: "ngDoCheck inp s = (Inr (), s')"
      using host decl m p(1,2) by (simp add: ngDoCheck_def)
    show ?thesis unfolding run fst_conv snd_conv
      by (intro exI conjI) (rule refl, rule p(3), rule p(6), rule p(4), rule p(5),
        rule p(7), rule p(8))
  next
    case False
    define tdev where "tdev = concat (map (teardown_events (dirIo s)) (map snd (dirRef s)))"
    define s0 where "s0 = s\<lparr>lastCompInstance := Val (cr_instance c), dirsDiffer := [],
        dirRef := [], dirIo := [], trace := trace s @ tdev\<rparr>"
    have tdok: "\<forall>r \<in> set (map snd (dirRef s)). teardown_ok r" using td by simp
    have m: "maybeDestroyDirectives inp s = (Inr False, s0)"
      using maybeDestroy_changed [OF host False tdok] by (simp add: s0_def tdev_def)
    have td0: "\<forall>r \<in> snd ` set (dirRef s0). teardown_ok r" by (simp add: s0_def)
    have fresh0: "\<not> Map_has (dirRef s0) T" "T \<notin> def_type ` set (dirsDiffer s0)"
      by (simp_all add: s0_def Map_has_def)
    have fr: "reflectService s0 = reflectService s" by (simp add: s0_def)
    have ok0: "\<forall>d \<in> set ds. constructible c s0 (def_type d) \<and> init_ok (def_type d)"
      using ok constructible_frame [OF fr] by simp
    from process_duplicates [OF td0 fresh0 Tin ok0] obtain ch s1 s' es rs r where
      p: "differ_diff (Some ds) s0 = (Some ch, s1)"
         "processDirChanges c ch s1 = (Inr (), s')" "trace s' = trace s0 @ es"
         "emitted es = [rs]" "filter (\<lambda>x. dr_type x = T) rs = [r]"
         "count_list (constructed es) T = 1"
         "Map_get (dirRef s') T = Some r" "Map_has (dirIo s') T"
      by blast
    have run: "ngDoCheck inp s = (Inr (), s')"
      using host decl m p(1,2) by (simp add: ngDoCheck_def)
    have tr: "trace s' = trace s @ (tdev @ es)" using p(3) by (simp add: s0_def)
    have e0: "emitted tdev = []" "constructed tdev = []"
      unfolding tdev_def by (rule emitted_teardowns, rule constructed_teardowns)
    have em: "emitted (tdev @ es) = [rs]" "count_list (constructed (tdev @ es)) T = 1"
      using p(4,6) e0 by simp_all
    show ?thesis unfolding run fst_conv snd_conv
      by (intro exI conjI) (rule refl, rule tr, rule em(2), rule em(1), rule p(5),
        rule p(7), rule p(8))
  qed
qed

theorem C4_idempotent_duplicate_witness:
  "fst (ngDoCheck (tickOn exHost [defA1, defOf tyB, defA2]) (newEngine noReflect)) = Inr () \<and>
   (\<exists>es rs r. trace (snd (ngDoCheck (tickOn exHost [defA1, defOf tyB, defA2])
      (newEngine noReflect))) = trace (newEngine noReflect) @ es \<and>
      count_list (constructed es) tyA = 1 \<and> emitted es = [rs] \<and>
      filter (\<lambda>x. dr_type x = tyA) rs = [r] \<and>
      Map_get (dirRef (snd (ngDoCheck (tickOn exHost [defA1, defOf tyB, defA2])
        (newEngine noReflect)))) tyA = Some r \<and>
      Map_has (dirIo (snd (ngDoCheck (tickOn exHost [defA1, defOf tyB, defA2])
        (newEngine noReflect)))) tyA)"
proof -
  define I where "I = tickOn exHost [defA1, defOf tyB, defA2]"
  have t: "def_type defA1 = tyA" "def_type defA2 = tyA"
    by (simp_all add: defA1_def defA2_def dynamicDirectiveDef_def)
  have a1: "componentRef I = Val exHost" "directives I = Some [defA1, defOf tyB, defA2]"
    by (simp_all add: I_def)
  have a2: "2 \<le> count_list (map def_type [defA1, defOf tyB, defA2]) tyA"
    using types_distinct by (simp add: t)
  have a4: "\<forall>r \<in> snd ` set (dirRef (newEngine noReflect)). teardown_ok r"
    by (simp add: newEngine_def)
  have a5: "lastCompInstance (newEngine noReflect) = Val (cr_instance exHost) \<longrightarrow>
      \<not> Map_has (dirRef (newEngine noReflect)) tyA \<and>
      tyA \<notin> def_type ` set (dirsDiffer (newEngine noReflect))"
    by (simp add: newEngine_def)
  have r: "reflectService (newEngine noReflect) = noReflect" by (simp add: newEngine_def)
  have a6: "\<forall>d \<in> set [defA1, defOf tyB, defA2].
      constructible exHost (newEngine noReflect) (def_type d) \<and> init_ok (def_type d)"
    using constructible_examples(1) [OF r] constructible_examples(2) init_ok_examples
    by (simp add: t)
  show ?thesis
    using C4_idempotent_duplicate [OF a1 a2 a5 a4 a6] unfolding I_def .
qed

text \<open>  The claim as stated fails in four ways. When \<open>A\<close> is attached already, the
  tick that declares \<open>A\<close> twice creates nothing and emits nothing: it only updates
  the differ memo. When a class declared between the two entries does not
  construct, the tick throws after the creation of \<open>A\<close> and emits no notification.
  When the teardown hook of a removed record throws, the tick throws before \<open>A\<close>
  is created. When \<open>A\<close> is in the differ memo without a record, because the tick
  that declared it first failed before it reached \<open>A\<close>, the tick that declares
  \<open>A\<close> twice returns normally and creates nothing.\<close>

theorem C4_counterexample:
  "ngDoCheck (tickOn exHost [defA1, defA2])
         (snd (ngDoCheck (tickOn exHost [defA1]) (newEngine noReflect))) =
     (Inr (), (snd (ngDoCheck (tickOn exHost [defA1]) (newEngine noReflect)))
                 \<lparr>dirsDiffer := [defA1, defA2]\<rparr>) \<and>
   fst (ngDoCheck (tickOn exHost [defA1, defOf tyD, defA2]) (newEngine noReflect)) =
     Inl (ResolutionError ''MissingService'') \<and>
   Map_keys (dirRef (snd (ngDoCheck (tickOn exHost [defA1, defOf tyD, defA2])
         (newEngine noReflect)))) = [tyA] \<and>
   emitted (trace (snd (ngDoCheck (tickOn exHost [defA1, defOf tyD, defA2])
         (newEngine noReflect)))) = [] \<and>
   fst (ngDoCheck (tickOn exHost [defA1, defA2])
         (snd (ngDoCheck (tickOn exHost [defOf tyX]) (newEngine noReflect)))) =
     Inl (HookError ''ngOnDestroy'') \<and>
   Map_keys (dirRef (snd (ngDoCheck (tickOn exHost [defA1, defA2])
         (snd (ngDoCheck (tickOn exHost [defOf tyX]) (newEngine noReflect)))))) = [tyX] \<and>
   ngDoCheck (tickOn exHost [defA1, defA2])
         (snd (ngDoCheck (tickOn exHost [defOf tyD, defA1, defA2]) (newEngine noReflect))) =
     (Inr (), (snd (ngDoCheck (tickOn exHost [defOf tyD, defA1, defA2]) (newEngine noReflect)))
                 \<lparr>dirsDiffer := [defA1, defA2]\<rparr>) \<and>
   Map_keys (dirRef (snd (ngDoCheck (tickOn exHost [defOf tyD, defA1, defA2])
         (newEngine noReflect)))) = []"
  by (simp add: engine_defs example_defs defA1_def defA2_def tyD_def emitted_def)




text \<open>  C6, as amended. On a tick with a stable host on which the differ reports no
  change, nothing is created or destroyed: both maps stay as they are and the only
  events are updates. Every entry of the declared list whose type has a port sends
  that port one update with the entry's inputs and outputs, in list order. So a
  type declared once receives one update, and a type declared twice receives two.\<close>

theorem C6_value_refresh:
  assumes host: "componentRef inp = Val c" "lastCompInstance s = Val (cr_instance c)"
    and same: "fst (differ_diff (directives inp) s) = None"
  shows "ngDoCheck inp s =
     (Inr (), s\<lparr>dirsDiffer := declared inp,
                 trace := trace s @ concat (map (refresh_events (dirIo s)) (declared inp))\<rparr>)"
proof -
  have d: "differ_diff (directives inp) s = (None, s\<lparr>dirsDiffer := declared inp\<rparr>)"
    using same differ_diff_state [of "directives inp" s]
    by (cases "differ_diff (directives inp) s") (simp add: declared_def)
  show ?thesis
    using host(1)
    by (simp add: ngDoCheck_def maybeDestroy_stable [OF host] d updateDirectives_events
        add_events_def)
qed

theorem C6_value_refresh_witness:
  "ngDoCheck (tickOn exHost [defA2, defOf tyC])
     (snd (ngDoCheck (tickOn exHost [defA1, defOf tyC]) (newEngine noReflect))) =
   (Inr (), (snd (ngDoCheck (tickOn exHost [defA1, defOf tyC]) (newEngine noReflect)))
      \<lparr>dirsDiffer := [defA2, defOf tyC],
       trace := trace (snd (ngDoCheck (tickOn exHost [defA1, defOf tyC]) (newEngine noReflect))) @
         [EvIoUpdate 0 (Some [(''label'', ''two'')]) None, EvIoUpdate 1 None None]\<rparr>)"
proof -
  define S where "S = snd (ngDoCheck (tickOn exHost [defA1, defOf tyC]) (newEngine noReflect))"
  define I where "I = tickOn exHost [defA2, defOf tyC]"
  have s: "lastCompInstance S = Val 1" "dirsDiffer S = [defA1, defOf tyC]"
    "dirIo S = [(tyA, new_io exHost tyA 0 0), (tyC, new_io exHost tyC 1 1)]"
    unfolding S_def by (simp_all add: engine_defs example_defs defA1_def new_ref_def new_io_def)
  have h: "componentRef I = Val exHost" "directives I = Some [defA2, defOf tyC]"
    "declared I = [defA2, defOf tyC]"
    by (simp_all add: componentRef_def directives_def declared_def tickOn_def I_def)
  have "cr_instance exHost = 1" by (simp add: exHost_def)
  then have l: "lastCompInstance S = Val (cr_instance exHost)" by (simp add: s)
  have t: "def_type defA1 = tyA" "def_type defA2 = tyA" "def_type (defOf tyC) = tyC"
    "def_inputs defA2 = Some [(''label'', ''two'')]" "def_outputs defA2 = None"
    "def_inputs (defOf tyC) = None" "def_outputs (defOf tyC) = None"
    by (simp_all add: defA1_def defA2_def defOf_def dynamicDirectiveDef_def)
  have n: "fst (differ_diff (directives I) S) = None"
    by (simp add: differ_diff_def Let_def h s t)
  have e: "concat (map (refresh_events (dirIo S)) (declared I)) =
     [EvIoUpdate 0 (Some [(''label'', ''two'')]) None, EvIoUpdate 1 None None]"
    using types_distinct by (simp add: h s t refresh_events_def new_io_def)
  have "ngDoCheck I S = (Inr (), S\<lparr>dirsDiffer := [defA2, defOf tyC],
       trace := trace S @ [EvIoUpdate 0 (Some [(''label'', ''two'')]) None, EvIoUpdate 1 None None]\<rparr>)"
    using C6_value_refresh [OF h(1) l n] e by (simp add: h)
  then show ?thesis unfolding S_def I_def .
qed

text \<open>  The claim as stated (one update for every attached declared type) fails when the
  list declares a type twice: after a tick that attached \<open>A\<close> from the list of two
  entries of type \<open>A\<close>, the same list is diffed as unchanged and the single port of
  \<open>A\<close> receives two updates, one per entry.\<close>

theorem C6_counterexample:
  "fst (differ_diff (directives (tickOn exHost [defA1, defA2]))
          (snd (ngDoCheck (tickOn exHost [defA1, defA2]) (newEngine noReflect)))) = None \<and>
   Map_keys (dirIo (snd (ngDoCheck (tickOn exHost [defA1, defA2]) (newEngine noReflect)))) = [tyA] \<and>
   trace (snd (ngDoCheck (tickOn exHost [defA1, defA2])
            (snd (ngDoCheck (tickOn exHost [defA1, defA2]) (newEngine noReflect))))) =
     trace (snd (ngDoCheck (tickOn exHost [defA1, defA2]) (newEngine noReflect))) @
       [EvIoUpdate 0 (Some [(''label'', ''one'')]) None, EvIoUpdate 0 (Some [(''label'', ''two'')]) None]"
  by (simp add: engine_defs example_defs defA1_def defA2_def)



text \<open>  C8, as amended. Destroying one record tears its port down before it calls the
  instance's own teardown hook, which is called only if the instance has one. A
  full teardown in which no teardown hook throws (the engine's \<open>ngOnDestroy\<close>, a tick
  without host, the teardown of a tick on a changed host) tears every stored
  record down in store order and leaves both maps empty.\<close>

theorem C8_teardown_protocol:
  "(\<forall>io. Map_get (dirIo s) (dr_type r) = Some io \<longrightarrow>
      snd (destroyDirRef r s) =
        s\<lparr>trace := trace s @ EvIoDestroy (io_id io) #
             (if exposes (dr_instance r) ''ngOnDestroy''
              then [EvHook (inst_id (dr_instance r)) ''ngOnDestroy''] else [])\<rparr>) \<and>
   ((\<forall>r \<in> set (map snd (dirRef s)). teardown_ok r) \<longrightarrow>
      ngOnDestroy s =
        (Inr (), s\<lparr>dirRef := [], dirIo := [],
                    trace := trace s @ concat (map (teardown_events (dirIo s)) (map snd (dirRef s)))\<rparr>) \<and>
      (hostAbsent inp \<longrightarrow>
         ngDoCheck inp s =
           (Inr (), s\<lparr>lastCompInstance := compInstance inp, dirsDiffer := [], dirRef := [], dirIo := [],
                       trace := trace s @ concat (map (teardown_events (dirIo s)) (map snd (dirRef s)))\<rparr>)) \<and>
      (\<forall>c. componentRef inp = Val c \<and> lastCompInstance s \<noteq> Val (cr_instance c) \<longrightarrow>
         maybeDestroyDirectives inp s =
           (Inr False, s\<lparr>lastCompInstance := Val (cr_instance c), dirsDiffer := [], dirRef := [], dirIo := [],
                       trace := trace s @ concat (map (teardown_events (dirIo s)) (map snd (dirRef s)))\<rparr>)))"
proof -
  have one: "snd (destroyDirRef r s) =
        s\<lparr>trace := trace s @ EvIoDestroy (io_id io) #
             (if exposes (dr_instance r) ''ngOnDestroy''
              then [EvHook (inst_id (dr_instance r)) ''ngOnDestroy''] else [])\<rparr>"
    if "Map_get (dirIo s) (dr_type r) = Some io" for io
    using that destroyDirRef_state [of r s]
    by (simp add: teardown_events_def Map_get_def add_events_def)
  have shut: "ngOnDestroy s =
        (Inr (), s\<lparr>dirRef := [], dirIo := [],
                    trace := trace s @ concat (map (teardown_events (dirIo s)) (map snd (dirRef s)))\<rparr>)"
    if "\<forall>r \<in> set (map snd (dirRef s)). teardown_ok r"
    using destroyAllDirectives_ok [OF that] by (simp add: ngOnDestroy_def add_events_def)
  show ?thesis
    using one shut ngDoCheck_absent [of inp s] maybeDestroy_changed [of inp _ s] by blast
qed

theorem C8_teardown_protocol_witness:
  "snd (destroyDirRef (new_ref exHost tyA 0)
     (snd (ngDoCheck (tickOn exHost [defOf tyA, defOf tyB]) (newEngine noReflect)))) =
     (snd (ngDoCheck (tickOn exHost [defOf tyA, defOf tyB]) (newEngine noReflect)))
        \<lparr>trace := trace (snd (ngDoCheck (tickOn exHost [defOf tyA, defOf tyB]) (newEngine noReflect))) @
           [EvIoDestroy 0, EvHook 0 ''ngOnDestroy'']\<rparr> \<and>
   ngOnDestroy (snd (ngDoCheck (tickOn exHost [defOf tyA, defOf tyB]) (newEngine noReflect))) =
     (Inr (), (snd (ngDoCheck (tickOn exHost [defOf tyA, defOf tyB]) (newEngine noReflect)))
        \<lparr>dirRef := [], dirIo := [],
         trace := trace (snd (ngDoCheck (tickOn exHost [defOf tyA, defOf tyB]) (newEngine noReflect))) @
           [EvIoDestroy 0, EvHook 0 ''ngOnDestroy'', EvIoDestroy 1]\<rparr>) \<and>
   ngDoCheck (tickNoHost [defOf tyA, defOf tyB])
       (snd (ngDoCheck (tickOn exHost [defOf tyA, defOf tyB]) (newEngine noReflect))) =
     (Inr (), (snd (ngDoCheck (tickOn exHost [defOf tyA, defOf tyB]) (newEngine noReflect)))
        \<lparr>lastCompInstance := Null, dirsDiffer := [], dirRef := [], dirIo := [],
         trace := trace (snd (ngDoCheck (tickOn exHost [defOf tyA, defOf tyB]) (newEngine noReflect))) @
           [EvIoDestroy 0, EvHook 0 ''ngOnDestroy'', EvIoDestroy 1]\<rparr>) \<and>
   maybeDestroyDirectives (tickOn exHost2 [defOf tyA, defOf tyB])
       (snd (ngDoCheck (tickOn exHost [defOf tyA, defOf tyB]) (newEngine noReflect))) =
     (Inr False, (snd (ngDoCheck (tickOn exHost [defOf tyA, defOf tyB]) (newEngine noReflect)))
        \<lparr>lastCompInstance := Val 2, dirsDiffer := [], dirRef := [], dirIo := [],
         trace := trace (snd (ngDoCheck (tickOn exHost [defOf tyA, defOf tyB]) (newEngine noReflect))) @
           [EvIoDestroy 0, EvHook 0 ''ngOnDestroy'', EvIoDestroy 1]\<rparr>)"
proof -
  define S where "S = snd (ngDoCheck (tickOn exHost [defOf tyA, defOf tyB]) (newEngine noReflect))"
  have s: "dirRef S = [(tyA, new_ref exHost tyA 0), (tyB, new_ref exHost tyB 1)]"
    "dirIo S = [(tyA, new_io exHost tyA 0 0), (tyB, new_io exHost tyB 1 1)]"
    "lastCompInstance S = Val 1"
    unfolding S_def by (simp_all add: first_tick_AB)
  have ok: "\<forall>r \<in> set (map snd (dirRef S)). teardown_ok r"
    by (simp add: s example_hooks)
  have ev: "concat (map (teardown_events (dirIo S)) (map snd (dirRef S))) =
      [EvIoDestroy 0, EvHook 0 ''ngOnDestroy'', EvIoDestroy 1]"
    using types_distinct by (simp add: s teardown_events_def example_hooks)
  have io: "Map_get (dirIo S) (dr_type (new_ref exHost tyA 0)) = Some (new_io exHost tyA 0 0)"
    by (simp add: s Map_get_def)
  have ab: "hostAbsent (tickNoHost [defOf tyA, defOf tyB])"
    "compInstance (tickNoHost [defOf tyA, defOf tyB]) = Null"
    by (simp_all add: hostAbsent_def compInstance_def componentRef_def tickNoHost_def)
  have ch: "componentRef (tickOn exHost2 [defOf tyA, defOf tyB]) = Val exHost2"
    "cr_instance exHost2 = 2"
    by (simp_all add: exHost2_def)
  note a = C8_teardown_protocol [where s = S and r = "new_ref exHost tyA 0"
      and inp = "tickNoHost [defOf tyA, defOf tyB]"]
  note b = C8_teardown_protocol [where s = S and r = "new_ref exHost tyA 0"
      and inp = "tickOn exHost2 [defOf tyA, defOf tyB]"]
  have "snd (destroyDirRef (new_ref exHost tyA 0) S) =
      S\<lparr>trace := trace S @ [EvIoDestroy 0, EvHook 0 ''ngOnDestroy'']\<rparr> \<and>
    ngOnDestroy S = (Inr (), S\<lparr>dirRef := [], dirIo := [],
         trace := trace S @ [EvIoDestroy 0, EvHook 0 ''ngOnDestroy'', EvIoDestroy 1]\<rparr>) \<and>
    ngDoCheck (tickNoHost [defOf tyA, defOf tyB]) S =
      (Inr (), S\<lparr>lastCompInstance := Null, dirsDiffer := [], dirRef := [], dirIo := [],
         trace := trace S @ [EvIoDestroy 0, EvHook 0 ''ngOnDestroy'', EvIoDestroy 1]\<rparr>) \<and>
    maybeDestroyDirectives (tickOn exHost2 [defOf tyA, defOf tyB]) S =
      (Inr False, S\<lparr>lastCompInstance := Val 2, dirsDiffer := [], dirRef := [], dirIo := [],
         trace := trace S @ [EvIoDestroy 0, EvHook 0 ''ngOnDestroy'', EvIoDestroy 1]\<rparr>)"
    using a b ok ev io ab ch s(3) by (simp add: example_hooks)
  then show ?thesis unfolding S_def .
qed

text \<open>  The claim as stated (every full teardown empties both maps) fails when a teardown
  hook throws: with \<open>X\<close>, whose \<open>ngOnDestroy\<close> throws, and \<open>A\<close> attached, the
  shutdown throws after the port and the hook of \<open>X\<close>, the record of \<open>A\<close> is not
  torn down and both maps keep both keys.\<close>

theorem C8_counterexample:
  "fst (ngOnDestroy (snd (ngDoCheck (tickOn exHost [defOf tyX, defOf tyA]) (newEngine noReflect)))) =
     Inl (HookError ''ngOnDestroy'') \<and>
   Map_keys (dirRef (snd (ngOnDestroy (snd (ngDoCheck (tickOn exHost [defOf tyX, defOf tyA]) (newEngine noReflect)))))) =
     [tyX, tyA] \<and>
   Map_keys (dirIo (snd (ngOnDestroy (snd (ngDoCheck (tickOn exHost [defOf tyX, defOf tyA]) (newEngine noReflect)))))) =
     [tyX, tyA] \<and>
   trace (snd (ngOnDestroy (snd (ngDoCheck (tickOn exHost [defOf tyX, defOf tyA]) (newEngine noReflect))))) =
     trace (snd (ngDoCheck (tickOn exHost [defOf tyX, defOf tyA]) (newEngine noReflect))) @
       [EvIoDestroy 0, EvHook 0 ''ngOnDestroy'']"
  by (simp add: engine_defs example_defs)

text \<open>  C9. After a tick without host that returned normally both maps and the differ
  memo are empty, and every further run of ticks without host returns normally and
  changes nothing but the remembered host value: the maps stay empty, the trace
  gets no event (no notification, no construction), and the memo stays empty, so
  the declared list has not been diffed.\<close>

theorem C9_host_absent_stable:
  assumes "hostAbsent inp0" and "ngDoCheck inp0 s = (Inr (), s1)"
    and "\<forall>inp \<in> set inps. hostAbsent inp"
  shows "dirRef s1 = [] \<and> dirIo s1 = [] \<and> dirsDiffer s1 = [] \<and>
         ticks inps s1 =
           (Inr (), s1\<lparr>lastCompInstance :=
                         (if inps = [] then lastCompInstance s1 else compInstance (last inps))\<rparr>)"
proof -
  have e: "dirRef s1 = [] \<and> dirIo s1 = [] \<and> dirsDiffer s1 = []"
    using absent_first_tick [OF assms(1,2)] .
  have "ticks inps t =
           (Inr (), t\<lparr>lastCompInstance :=
                         (if inps = [] then lastCompInstance t else compInstance (last inps))\<rparr>)"
    if "dirRef t = []" "dirIo t = []" "dirsDiffer t = []" for t
    using assms(3) that
  proof (induction inps arbitrary: t)
    case Nil
    then show ?case by simp
  next
    case (Cons inp inps)
    have step: "ngDoCheck inp t = (Inr (), t\<lparr>lastCompInstance := compInstance inp\<rparr>)"
      using absent_idle_tick [of inp t] Cons.prems by simp
    show ?case
      using Cons.IH [of "t\<lparr>lastCompInstance := compInstance inp\<rparr>"] Cons.prems
      by (simp add: step)
  qed
  with e show ?thesis by simp
qed

theorem C9_host_absent_stable_witness:
  "ticks [tickNoHost [defOf tyA], tickNoHost [defOf tyB, defOf tyC]]
     (snd (ngDoCheck (tickNoHost [defOf tyA])
        (snd (ngDoCheck (tickOn exHost [defOf tyA, defOf tyB]) (newEngine noReflect))))) =
   (Inr (), snd (ngDoCheck (tickNoHost [defOf tyA])
        (snd (ngDoCheck (tickOn exHost [defOf tyA, defOf tyB]) (newEngine noReflect)))))"
proof -
  let ?s = "snd (ngDoCheck (tickOn exHost [defOf tyA, defOf tyB]) (newEngine noReflect))"
  let ?s1 = "snd (ngDoCheck (tickNoHost [defOf tyA]) ?s)"
  have a: "hostAbsent (tickNoHost [defOf tyA])"
    by (simp add: hostAbsent_def componentRef_def tickNoHost_def)
  have b: "ngDoCheck (tickNoHost [defOf tyA]) ?s = (Inr (), ?s1)"
    by (simp add: engine_defs example_defs)
  have c: "\<forall>inp \<in> set [tickNoHost [defOf tyA], tickNoHost [defOf tyB, defOf tyC]]. hostAbsent inp"
    by (simp add: hostAbsent_def componentRef_def tickNoHost_def)
  have d: "lastCompInstance ?s1 = Null"
    by (simp add: engine_defs example_defs)
  have e: "compInstance (tickNoHost [defOf tyB, defOf tyC]) = Null"
    by (simp add: compInstance_def componentRef_def tickNoHost_def)
  have f: "?s1\<lparr>lastCompInstance := Null\<rparr> = ?s1"
    using d by (metis Engine.surjective Engine.update_convs(1))
  show ?thesis
    using C9_host_absent_stable [OF a b c] e f by simp
qed

text \<open>  C10, as amended. After a run from a new engine in which no operation was aborted
  by an init hook, a type without record has no port either: \<open>destroyDirective\<close>
  returns normally and changes nothing, and \<open>updateDirective\<close> changes nothing. In
  any state, for a type without record, \<open>destroyDirective\<close> returns normally, adds
  no event and only deletes the type's keys, so that it changes nothing when the
  type has no port either. For a type without port, \<open>updateDirective\<close> changes
  nothing; for a type with a port, with or without record, it sends that port one
  update. Destroying a record whose type has no port records no port teardown: the
  only event is the instance's own teardown hook, if it has one, and the call
  returns normally unless that hook throws.\<close>

theorem C10_unattached_noop:
  "(\<not> init_aborts ops (newEngine reflect) \<and>
    Map_get (dirRef (run ops (newEngine reflect))) (def_type d) = None \<longrightarrow>
      destroyDirective d (run ops (newEngine reflect)) = (Inr (), run ops (newEngine reflect)) \<and>
      updateDirective d (run ops (newEngine reflect)) = run ops (newEngine reflect)) \<and>
   (Map_get (dirRef s) (def_type d) = None \<longrightarrow>
      destroyDirective d s =
        (Inr (), s\<lparr>dirRef := Map_delete (def_type d) (dirRef s),
                    dirIo := Map_delete (def_type d) (dirIo s)\<rparr>) \<and>
      (Map_get (dirIo s) (def_type d) = None \<longrightarrow> destroyDirective d s = (Inr (), s))) \<and>
   (Map_get (dirIo s) (def_type d) = None \<longrightarrow> updateDirective d s = s) \<and>
   (Map_get (dirIo s) (def_type d) = Some io \<longrightarrow>
      updateDirective d s =
        s\<lparr>trace := trace s @ [EvIoUpdate (io_id io) (def_inputs d) (def_outputs d)]\<rparr>) \<and>
   (Map_get (dirIo s) (dr_type r) = None \<longrightarrow>
      snd (destroyDirRef r s) =
        s\<lparr>trace := trace s @
             (if exposes (dr_instance r) ''ngOnDestroy''
              then [EvHook (inst_id (dr_instance r)) ''ngOnDestroy''] else [])\<rparr> \<and>
      (\<not> hook_throws (dr_instance r) ''ngOnDestroy'' \<longrightarrow> fst (destroyDirRef r s) = Inr ()))"
proof -
  have a: "destroyDirective d s =
        (Inr (), s\<lparr>dirRef := Map_delete (def_type d) (dirRef s),
                    dirIo := Map_delete (def_type d) (dirIo s)\<rparr>)"
    if "Map_get (dirRef s) (def_type d) = None" for s
    using that by (simp add: destroyDirective_def bindE_def returnE_def)
  have b: "destroyDirective d s = (Inr (), s)"
    if "Map_get (dirRef s) (def_type d) = None" "Map_get (dirIo s) (def_type d) = None" for s
    using that a by (simp add: Map_get_def Map_delete_absent)
  have c: "updateDirective d s = s" if "Map_get (dirIo s) (def_type d) = None" for s
    using that by (simp add: updateDirective_def)
  have c': "updateDirective d s =
        s\<lparr>trace := trace s @ [EvIoUpdate (io_id io) (def_inputs d) (def_outputs d)]\<rparr>"
    if "Map_get (dirIo s) (def_type d) = Some io"
    using that by (simp add: updateDirective_def record_event_def)
  have d: "snd (destroyDirRef r s) =
        s\<lparr>trace := trace s @
             (if exposes (dr_instance r) ''ngOnDestroy''
              then [EvHook (inst_id (dr_instance r)) ''ngOnDestroy''] else [])\<rparr>"
    if "Map_get (dirIo s) (dr_type r) = None"
    using that destroyDirRef_state [of r s]
    by (simp add: teardown_events_def Map_get_def add_events_def)
  have e: "fst (destroyDirRef r s) = Inr ()" if "\<not> hook_throws (dr_instance r) ''ngOnDestroy''"
    using that by (simp add: destroyDirRef_result teardown_ok_def)
  have f: "Map_get (dirIo (run ops (newEngine reflect))) (def_type d) = None"
    if h: "\<not> init_aborts ops (newEngine reflect)"
      "Map_get (dirRef (run ops (newEngine reflect))) (def_type d) = None"
  proof -
    have "store_inv (run ops (newEngine reflect))" using run_inv [OF store_inv_new h(1)] .
    moreover have "def_type d \<notin> set (Map_keys (dirRef (run ops (newEngine reflect))))"
      using h(2) Map_has_keys [of "dirRef (run ops (newEngine reflect))" "def_type d"]
      by (simp add: Map_has_def Map_get_def)
    ultimately have "def_type d \<notin> set (Map_keys (dirIo (run ops (newEngine reflect))))"
      by (simp add: store_inv_def)
    then show ?thesis
      using Map_has_keys [of "dirIo (run ops (newEngine reflect))" "def_type d"]
      by (simp add: Map_has_def Map_get_def)
  qed
  show ?thesis
    using a [of s] b [of s] c [of s] c' d e f
      b [of "run ops (newEngine reflect)"] c [of "run ops (newEngine reflect)"]
    by blast
qed

theorem C10_unattached_noop_witness:
  "destroyDirective (defOf tyD) (run [Tick (tickOn exHost [defOf tyD])] (newEngine noReflect)) =
     (Inr (), run [Tick (tickOn exHost [defOf tyD])] (newEngine noReflect)) \<and>
   updateDirective (defOf tyD) (run [Tick (tickOn exHost [defOf tyD])] (newEngine noReflect)) =
     run [Tick (tickOn exHost [defOf tyD])] (newEngine noReflect) \<and>
   destroyDirective (defOf tyA) (newEngine noReflect) = (Inr (), newEngine noReflect) \<and>
   updateDirective (defOf tyA) (newEngine noReflect) = newEngine noReflect \<and>
   updateDirective (defOf tyH) (snd (ngDoCheck (tickOn exHost [defOf tyH]) (newEngine noReflect))) =
     (snd (ngDoCheck (tickOn exHost [defOf tyH]) (newEngine noReflect)))
       \<lparr>trace := trace (snd (ngDoCheck (tickOn exHost [defOf tyH]) (newEngine noReflect))) @
          [EvIoUpdate 0 None None]\<rparr> \<and>
   destroyDirRef (new_ref exHost tyA 0) (newEngine noReflect) =
     (Inr (), (newEngine noReflect)\<lparr>trace := [EvHook 0 ''ngOnDestroy'']\<rparr>)"
proof -
  define ops where "ops = [Tick (tickOn exHost [defOf tyD])]"
  define S where "S = snd (ngDoCheck (tickOn exHost [defOf tyH]) (newEngine noReflect))"
  have e: "Map_get (dirRef (newEngine noReflect)) (def_type (defOf tyA)) = None"
    "Map_get (dirIo (newEngine noReflect)) (def_type (defOf tyA)) = None"
    "Map_get (dirIo (newEngine noReflect)) (dr_type (new_ref exHost tyA 0)) = None"
    "trace (newEngine noReflect) = []"
    by (simp_all add: newEngine_def Map_get_def)
  have k: "\<not> hook_throws (dr_instance (new_ref exHost tyA 0)) ''ngOnDestroy''"
    using example_hooks(1) [of exHost 0] by (simp add: teardown_ok_def)
  have na: "\<not> init_aborts ops (newEngine noReflect)"
    by (simp add: ops_def tick_D_state aborted_by_init_hook_def init_hook_error_def)
  have nr: "Map_get (dirRef (run ops (newEngine noReflect))) (def_type (defOf tyD)) = None"
    by (simp add: ops_def tick_D_state Map_get_def)
  have po: "Map_get (dirIo S) (def_type (defOf tyH)) = Some (new_io exHost tyH 0 0)"
    by (simp add: S_def tick_H_state Map_get_def)
  have io: "io_id (new_io exHost tyH 0 0) = 0" by (simp add: new_io_def)
  have df: "def_inputs (defOf tyH) = None" "def_outputs (defOf tyH) = None"
    by (simp_all add: defOf_def dynamicDirectiveDef_def)
  have p1: "destroyDirective (defOf tyD) (run ops (newEngine noReflect)) =
       (Inr (), run ops (newEngine noReflect)) \<and>
     updateDirective (defOf tyD) (run ops (newEngine noReflect)) = run ops (newEngine noReflect)"
    using C10_unattached_noop [of ops noReflect "defOf tyD" "newEngine noReflect"
        "new_io exHost tyH 0 0" "new_ref exHost tyA 0"] na nr
    by simp
  have p2: "destroyDirective (defOf tyA) (newEngine noReflect) = (Inr (), newEngine noReflect) \<and>
     updateDirective (defOf tyA) (newEngine noReflect) = newEngine noReflect \<and>
     destroyDirRef (new_ref exHost tyA 0) (newEngine noReflect) =
       (Inr (), (newEngine noReflect)\<lparr>trace := [EvHook 0 ''ngOnDestroy'']\<rparr>)"
    using C10_unattached_noop [of ops noReflect "defOf tyA" "newEngine noReflect"
        "new_io exHost tyH 0 0" "new_ref exHost tyA 0"] e k example_hooks(4) [of exHost 0]
    by (cases "destroyDirRef (new_ref exHost tyA 0) (newEngine noReflect)")
       (simp add: newEngine_def)
  have p3: "updateDirective (defOf tyH) S = S\<lparr>trace := trace S @ [EvIoUpdate 0 None None]\<rparr>"
    using C10_unattached_noop [of ops noReflect "defOf tyH" S "new_io exHost tyH 0 0"
        "new_ref exHost tyA 0"] po io df
    by simp
  show ?thesis using p1 p2 p3 unfolding ops_def S_def by simp
qed

text \<open>  The claim as stated fails for a type whose creation failed in an init hook.
  After the tick that declared \<open>H\<close>, whose \<open>ngOnInit\<close> throws, \<open>H\<close> has no record
  but its port is in the port map: refreshing \<open>H\<close> sends that port an update, and
  destroying \<open>H\<close> deletes a key that is present, without tearing the port down.\<close>

theorem C10_counterexample:
  "Map_get (dirRef (snd (ngDoCheck (tickOn exHost [defOf tyH]) (newEngine noReflect)))) tyH = None \<and>
   updateDirective (defOf tyH) (snd (ngDoCheck (tickOn exHost [defOf tyH]) (newEngine noReflect))) =
     (snd (ngDoCheck (tickOn exHost [defOf tyH]) (newEngine noReflect)))
       \<lparr>trace := trace (snd (ngDoCheck (tickOn exHost [defOf tyH]) (newEngine noReflect))) @
          [EvIoUpdate 0 None None]\<rparr> \<and>
   destroyDirective (defOf tyH) (snd (ngDoCheck (tickOn exHost [defOf tyH]) (newEngine noReflect))) =
     (Inr (), (snd (ngDoCheck (tickOn exHost [defOf tyH]) (newEngine noReflect)))\<lparr>dirIo := []\<rparr>)"
  by (simp add: engine_defs example_defs tyH_def)

end
